theory Spec2Isabelle
  imports Complex_Main "HOL-Library.AList"
begin

section \<open>Data model of \<open>bot/utils/advanced_rate_limiter.py\<close>\<close>

text \<open>
  Clock readings (\<open>time.time()\<close>) and durations are Python floats; they are modelled as
  reals, so rounding is not part of the model.
\<close>

type_synonym time = real

text \<open>\<open>class MessagePriority(Enum)\<close> with its \<open>.value\<close> and \<open>.name\<close>.\<close>

datatype MessagePriority = CRITICAL | HIGH | NORMAL | LOW

fun priority_value :: "MessagePriority \<Rightarrow> int" where
  "priority_value CRITICAL = 1"
| "priority_value HIGH = 2"
| "priority_value NORMAL = 3"
| "priority_value LOW = 4"

fun priority_name :: "MessagePriority \<Rightarrow> string" where
  "priority_name CRITICAL = ''CRITICAL''"
| "priority_name HIGH = ''HIGH''"
| "priority_name NORMAL = ''NORMAL''"
| "priority_name LOW = ''LOW''"

text \<open>
  The part of \<open>discord.Embed\<close> that the limiter reads: title and description (either may
  be \<open>None\<close>), the list of fields (name, value), and the footer. The footer is \<open>None\<close>
  when the embed has no footer (it is falsy), \<open>Some None\<close> for a footer whose text is
  \<open>None\<close>, and \<open>Some (Some t)\<close> for a footer with text \<open>t\<close>.
\<close>

record Embed =
  title :: "string option"
  description :: "string option"
  embed_fields :: "(string \<times> string) list"
  footer :: "string option option"

text \<open>
  \<open>@dataclass QueuedMessage\<close>. The attachment and the callback are opaque to the limiter:
  the file is an optional name and the callback an optional identifier.
\<close>

record QueuedMessage =
  channel_id :: int
  embed :: Embed
  msg_file :: "string option"
  content :: "string option"
  priority :: MessagePriority
  timestamp :: time
  retry_count :: int
  callback :: "nat option"

section \<open>Priority insertion (\<open>queue_message\<close>, lines 113 to 123)\<close>

text \<open>
  The loop \<open>for i, existing in enumerate(queue)\<close> walks the queue from the front and
  inserts the message before the first entry whose priority value is greater; when the
  loop finds none, the message is appended.
\<close>

fun insert_message :: "QueuedMessage \<Rightarrow> QueuedMessage list \<Rightarrow> QueuedMessage list" where
  "insert_message message [] = [message]"
| "insert_message message (existing # queue) =
     (if priority_value (priority message) < priority_value (priority existing)
      then message # existing # queue
      else existing # insert_message message queue)"

text \<open>The queue that a sequence of enqueues builds from the empty queue, in arrival order.\<close>

definition enqueue_all :: "QueuedMessage list \<Rightarrow> QueuedMessage list" where
  "enqueue_all ms = foldl (\<lambda>queue message. insert_message message queue) [] ms"

section \<open>Python built-ins\<close>

text \<open>
  \<open>hash\<close> on strings, \<open>str\<close> on floats and \<open>float\<close> on strings are not part of the
  repository. They are parameters of the model; \<open>float\<close> returns \<open>None\<close> where Python
  raises \<open>ValueError\<close>.
\<close>

record builtins =
  py_hash :: "string \<Rightarrow> int"
  py_str_float :: "real \<Rightarrow> string"
  py_float :: "string \<Rightarrow> real option"

text \<open>\<open>str\<close> on integers: the decimal numeral, with a minus sign when negative.\<close>

definition digit_char :: "nat \<Rightarrow> char" where
  "digit_char d = ''0123456789'' ! d"

fun str_nat :: "nat \<Rightarrow> string" where
  "str_nat n = (if n < 10 then [digit_char n] else str_nat (n div 10) @ [digit_char (n mod 10)])"

declare str_nat.simps [simp del]

definition str_int :: "int \<Rightarrow> string" where
  "str_int i = (if i < 0 then CHR ''-'' # str_nat (nat (- i)) else str_nat (nat i))"

text \<open>\<open>sep.join(parts)\<close> and \<open>x or ""\<close>.\<close>

fun str_join :: "string \<Rightarrow> string list \<Rightarrow> string" where
  "str_join sep [] = []"
| "str_join sep [x] = x"
| "str_join sep (x # y # ys) = x @ sep @ str_join sep (y # ys)"

definition or_empty :: "string option \<Rightarrow> string" where
  "or_empty x = (case x of None \<Rightarrow> [] | Some s \<Rightarrow> s)"

section \<open>The limiter object\<close>

definition GLOBAL_RATE_LIMIT :: nat where "GLOBAL_RATE_LIMIT = 50"
definition CHANNEL_RATE_LIMIT :: nat where "CHANNEL_RATE_LIMIT = 5"
definition BURST_ALLOWANCE :: nat where "BURST_ALLOWANCE = 5"
definition MESSAGE_DELAY :: real where "MESSAGE_DELAY = 2 / 10"
definition dedup_window :: real where "dedup_window = 30"

text \<open>
  The attributes of \<open>AdvancedRateLimiter\<close> set in \<open>__init__\<close>. \<open>channel_queues\<close> is a
  dictionary whose keys are enumerated (by the dispatcher and by the statistics), so it is
  an association list in insertion order. The two other \<open>defaultdict\<close>s are only ever
  read at one key, so they are total functions whose default is the empty list. The
  deques are lists with the oldest entry first.
\<close>

record limiter =
  channel_queues :: "(int \<times> QueuedMessage list) list"
  channel_last_sent :: "int \<rightharpoonup> time"
  channel_message_count :: "int \<Rightarrow> time list"
  global_message_times :: "time list"
  processing_channels :: "int set"
  rate_limit_remaining :: "string \<rightharpoonup> int"
  rate_limit_reset :: "string \<rightharpoonup> time"
  global_rate_limit_reset :: time
  recent_embeds :: "int \<Rightarrow> string list"

definition init_limiter :: limiter where
  "init_limiter =
     \<lparr>channel_queues = [], channel_last_sent = Map.empty, channel_message_count = (\<lambda>_. []),
      global_message_times = [], processing_channels = {}, rate_limit_remaining = Map.empty,
      rate_limit_reset = Map.empty, global_rate_limit_reset = 0, recent_embeds = (\<lambda>_. [])\<rparr>"

text \<open>
  \<open>self.channel_queues[channel_id]\<close>: reading a key of the \<open>defaultdict\<close> that is absent
  gives the empty list and adds the key at the end (\<open>touch_queue\<close>).
\<close>

definition queue_of :: "limiter \<Rightarrow> int \<Rightarrow> QueuedMessage list" where
  "queue_of l c = (case map_of (channel_queues l) c of None \<Rightarrow> [] | Some q \<Rightarrow> q)"

definition set_queue :: "int \<Rightarrow> QueuedMessage list \<Rightarrow> limiter \<Rightarrow> limiter" where
  "set_queue c q l = l\<lparr>channel_queues := AList.update c q (channel_queues l)\<rparr>"

definition touch_queue :: "int \<Rightarrow> limiter \<Rightarrow> limiter" where
  "touch_queue c l = set_queue c (queue_of l c) l"

text \<open>\<open>deque(maxlen=n).append(x)\<close>: a full deque discards from the left.\<close>

definition deque_append :: "nat \<Rightarrow> 'a list \<Rightarrow> 'a \<Rightarrow> 'a list" where
  "deque_append n xs x = drop (length (xs @ [x]) - n) (xs @ [x])"

section \<open>Deduplication and \<open>queue_message\<close>\<close>

text \<open>
  \<open>_generate_embed_hash\<close>. Joining raises \<open>TypeError\<close> when the footer is present and its
  text is \<open>None\<close>; the handler then returns \<open>str(time.time())\<close>. The clock reading of the
  handler is the argument \<open>now\<close>.
\<close>

definition generate_embed_hash :: "builtins \<Rightarrow> time \<Rightarrow> Embed \<Rightarrow> string" where
  "generate_embed_hash B now emb =
     (case (case footer emb of None \<Rightarrow> Some [] | Some text \<Rightarrow> text) of
        None \<Rightarrow> py_str_float B now
      | Some footer_text \<Rightarrow>
          str_int (py_hash B (str_join ''_''
            [or_empty (title emb), or_empty (description emb),
             str_nat (length (embed_fields emb)), footer_text])))"

text \<open>
  The list comprehension of lines 89 to 92: an entry \<open>h\<close> is kept when
  \<open>current_time - float(h.split('_')[0]) < dedup_window\<close>. \<open>None\<close> when \<open>float\<close> raises.
\<close>

fun purge_recent :: "builtins \<Rightarrow> time \<Rightarrow> string list \<Rightarrow> string list option" where
  "purge_recent B current_time [] = Some []"
| "purge_recent B current_time (h # hs) =
     (case py_float B (takeWhile (\<lambda>ch. ch \<noteq> CHR ''_'') h) of
        None \<Rightarrow> None
      | Some t \<Rightarrow>
          (case purge_recent B current_time hs of
             None \<Rightarrow> None
           | Some kept \<Rightarrow> Some (if current_time - t < dedup_window then h # kept else kept)))"

text \<open>
  \<open>queue_message\<close> at clock reading \<open>current_time\<close>. An exception inside the body is caught
  and logged by the outer handler, and the call ends; the only raise of the model is the
  one of \<open>float\<close>, before any attribute is assigned.
\<close>

definition queue_message ::
  "builtins \<Rightarrow> time \<Rightarrow> int \<Rightarrow> Embed \<Rightarrow> string option \<Rightarrow> string option \<Rightarrow>
   MessagePriority \<Rightarrow> nat option \<Rightarrow> limiter \<Rightarrow> limiter" where
  "queue_message B current_time cid emb fl cont prio cb l =
     (let embed_hash = generate_embed_hash B current_time emb;
          channel_recent = recent_embeds l cid
      in case purge_recent B current_time channel_recent of
           None \<Rightarrow> l
         | Some kept \<Rightarrow>
             let l1 = l\<lparr>recent_embeds := (recent_embeds l)(cid := kept)\<rparr>
             in if embed_hash \<in> set (recent_embeds l1 cid) then l1
                else
                  let l2 = l1\<lparr>recent_embeds := (recent_embeds l1)
                             (cid := recent_embeds l1 cid
                                @ [py_str_float B current_time @ ''_'' @ embed_hash])\<rparr>;
                      message = \<lparr>channel_id = cid, embed = emb, msg_file = fl, content = cont,
                                 priority = prio, timestamp = current_time, retry_count = 0,
                                 callback = cb\<rparr>
                  in set_queue cid (insert_message message (queue_of l2 cid)) l2)"

section \<open>The rate governor\<close>

text \<open>
  \<open>_is_globally_rate_limited\<close> and \<open>_can_send_to_channel\<close> first drop the timestamps at
  the left of the deque that are too old, so they return the limiter as well.
\<close>

definition is_globally_rate_limited :: "time \<Rightarrow> limiter \<Rightarrow> bool \<times> limiter" where
  "is_globally_rate_limited current_time l =
     (let l1 = l\<lparr>global_message_times :=
                   dropWhile (\<lambda>t. current_time - t > 1) (global_message_times l)\<rparr>
      in if length (global_message_times l1) \<ge> GLOBAL_RATE_LIMIT then (True, l1)
         else if current_time < global_rate_limit_reset l1 then (True, l1)
         else (False, l1))"

definition can_send_to_channel :: "int \<Rightarrow> time \<Rightarrow> limiter \<Rightarrow> bool \<times> limiter" where
  "can_send_to_channel cid current_time l =
     (let channel_times = dropWhile (\<lambda>t. current_time - t > 5) (channel_message_count l cid);
          l1 = l\<lparr>channel_message_count := (channel_message_count l)(cid := channel_times)\<rparr>
      in if length channel_times \<ge> CHANNEL_RATE_LIMIT then (False, l1)
         else
           let last_sent = (case channel_last_sent l1 cid of None \<Rightarrow> 0 | Some t \<Rightarrow> t)
           in if current_time - last_sent < MESSAGE_DELAY then (False, l1) else (True, l1))"

section \<open>The delivery worker\<close>

text \<open>
  What \<open>channel.send\<close> does, as \<open>_send_message\<close> tells the cases apart: it returns; it
  raises \<open>HTTPException\<close> with status 429, with or without a \<open>retry_after\<close> attribute and
  with or without \<open>global\<close> in its text; it raises another \<open>HTTPException\<close>; it raises
  another exception.
\<close>

datatype outcome = Sent | RateLimited "real option" bool | HTTPError | OtherError

text \<open>
  \<open>_send_message\<close> up to its \<open>asyncio.sleep\<close>: the result, the duration it then sleeps
  (zero when it does not), and the limiter. \<open>t\<close> is the clock reading of the handler.
\<close>

fun send_message :: "outcome \<Rightarrow> time \<Rightarrow> limiter \<Rightarrow> bool \<times> real \<times> limiter" where
  "send_message Sent t l = (True, 0, l)"
| "send_message (RateLimited ra is_global) t l =
     (let retry_after = (case ra of None \<Rightarrow> 1 | Some r \<Rightarrow> r)
      in (False, retry_after,
          if is_global then l\<lparr>global_rate_limit_reset := t + retry_after\<rparr> else l))"
| "send_message HTTPError t l = (False, 0, l)"
| "send_message OtherError t l = (False, 0, l)"

text \<open>
  The head of the loop of \<open>_process_channel_queue\<close> (lines 226 to 236) at clock reading
  \<open>current_time\<close>: \<open>None\<close> when the loop ends (empty queue or \<open>break\<close>), otherwise the
  message popped from the front.
\<close>

definition loop_head :: "int \<Rightarrow> time \<Rightarrow> limiter \<Rightarrow> QueuedMessage option \<times> limiter" where
  "loop_head cid current_time l =
     (case queue_of l cid of
        [] \<Rightarrow> (None, l)
      | message # rest \<Rightarrow>
          (let (can, l1) = can_send_to_channel cid current_time l
           in if \<not> can then (None, l1)
              else
                let (limited, l2) = is_globally_rate_limited current_time l1
                in if limited then (None, l2)
                   else (Some message, set_queue cid rest l2)))"

text \<open>
  Lines 239 to 257, after \<open>_send_message\<close> has returned \<open>success\<close>. The callback is opaque
  and is taken not to touch the limiter.
\<close>

definition after_send :: "int \<Rightarrow> time \<Rightarrow> QueuedMessage \<Rightarrow> bool \<Rightarrow> limiter \<Rightarrow> limiter" where
  "after_send cid current_time message success l =
     (if success then
        l\<lparr>global_message_times :=
            deque_append GLOBAL_RATE_LIMIT (global_message_times l) current_time,
          channel_message_count := (channel_message_count l)
            (cid := deque_append CHANNEL_RATE_LIMIT (channel_message_count l cid) current_time),
          channel_last_sent := (channel_last_sent l)(cid \<mapsto> current_time)\<rparr>
      else
        let message' = message\<lparr>retry_count := retry_count message + 1\<rparr>
        in if retry_count message' < 3 then set_queue cid (message' # queue_of l cid) l
           else l)"

text \<open>
  The environment of a worker that runs alone: the bot (which channels \<open>get_channel\<close>
  finds, and what the \<open>k\<close>-th call of \<open>channel.send\<close> does), a clock that \<open>asyncio.sleep\<close>
  advances, the number of calls of \<open>channel.send\<close> so far, and a trace of what happened.
\<close>

record bot =
  get_channel :: "int \<Rightarrow> bool"
  channel_send :: "nat \<Rightarrow> outcome"

datatype event =
    Attempt QueuedMessage outcome
  | CallbackRun nat
  | LogFailed QueuedMessage

record world =
  lstate :: limiter
  clock :: time
  send_count :: nat
  trace :: "event list"

definition sleep :: "real \<Rightarrow> world \<Rightarrow> world" where
  "sleep d w = w\<lparr>clock := clock w + max 0 d\<rparr>"

text \<open>One pass through the loop body; the flag tells whether the loop goes on.\<close>

definition loop_iteration :: "bot \<Rightarrow> int \<Rightarrow> world \<Rightarrow> bool \<times> world" where
  "loop_iteration b cid w =
     (let current_time = clock w
      in case loop_head cid current_time (lstate w) of
           (None, l1) \<Rightarrow> (False, w\<lparr>lstate := l1\<rparr>)
         | (Some message, l1) \<Rightarrow>
             (let result = channel_send b (send_count w);
                  (success, delay, l2) = send_message result (clock w) l1;
                  w1 = sleep delay
                         (w\<lparr>lstate := l2, send_count := send_count w + 1,
                            trace := trace w @ [Attempt message result]\<rparr>);
                  l3 = after_send cid current_time message success (lstate w1);
                  events =
                    (if success then (case callback message of None \<Rightarrow> [] | Some f \<Rightarrow> [CallbackRun f])
                     else if retry_count message + 1 < 3 then []
                     else [LogFailed (message\<lparr>retry_count := retry_count message + 1\<rparr>)])
              in (True, sleep (1 / 10) (w1\<lparr>lstate := l3, trace := trace w1 @ events\<rparr>))))"

text \<open>
  The number of sends that the messages of a queue can still get: one, plus one for each
  retry left.
\<close>

definition retry_budget :: "QueuedMessage list \<Rightarrow> nat" where
  "retry_budget q = sum_list (map (\<lambda>m. 1 + nat (2 - retry_count m)) q)"

text \<open>
  \<open>while queue:\<close> in \<open>_process_channel_queue\<close>. Every pass that goes on either sends
  the head for good or uses up one of its retries, so the loop ends.
\<close>

function drain :: "bot \<Rightarrow> int \<Rightarrow> world \<Rightarrow> world" where
  "drain b cid w =
     (case loop_iteration b cid w of
        (False, w') \<Rightarrow> w'
      | (True, w') \<Rightarrow> drain b cid w')"
  by pat_completeness auto
termination
proof (relation "measure (\<lambda>(b, cid, w). retry_budget (queue_of (lstate w) cid))")
  show "wf (measure (\<lambda>(b, cid, w). retry_budget (queue_of (lstate w) cid)))"
    by simp
next
  fix b :: bot and cid :: int and w x :: world and y :: bool
  assume it: "(y, x) = loop_iteration b cid w" and go: "y = True"
  have q_set: "queue_of (set_queue c q l) c = q" for c q l
    by (simp add: queue_of_def set_queue_def update_conv')
  have q_can: "queue_of (snd (can_send_to_channel c t l)) c' = queue_of l c'" for c c' t l
    by (simp add: can_send_to_channel_def queue_of_def Let_def)
  have q_glob: "queue_of (snd (is_globally_rate_limited t l)) c' = queue_of l c'" for c' t l
    by (simp add: is_globally_rate_limited_def queue_of_def Let_def)
  have q_send: "queue_of (snd (snd (send_message r t l))) c' = queue_of l c'" for r c' t l
    by (cases r) (simp_all add: queue_of_def Let_def)
  have q_after: "retry_budget (queue_of (after_send c t m s l) c)
                   < retry_budget (m # queue_of l c)" for c t m s l
    by (auto simp: after_send_def queue_of_def set_queue_def update_conv' retry_budget_def Let_def)
  show "((b, cid, x), (b, cid, w)) \<in> measure (\<lambda>(b, cid, w). retry_budget (queue_of (lstate w) cid))"
  proof (cases "loop_head cid (clock w) (lstate w)")
    case (Pair nxt l1)
    show ?thesis
    proof (cases nxt)
      case None
      with Pair it go show ?thesis by (simp add: loop_iteration_def)
    next
      case (Some m)
      have hd: "queue_of (lstate w) cid = m # queue_of l1 cid"
        using Pair Some q_can[of cid "clock w" "lstate w" cid]
          q_glob[of "clock w" "snd (can_send_to_channel cid (clock w) (lstate w))" cid]
        by (auto simp: loop_head_def q_set split: list.splits prod.splits if_splits)
      obtain s d l2 where sm: "send_message (channel_send b (send_count w)) (clock w) l1 = (s, d, l2)"
        by (metis prod_cases3)
      have l2: "queue_of l2 cid = queue_of l1 cid"
        using q_send[of "channel_send b (send_count w)" "clock w" l1 cid] sm by simp
      have "lstate x = after_send cid (clock w) m s l2"
        using it Pair Some sm by (simp add: loop_iteration_def sleep_def Let_def)
      then show ?thesis using q_after[of cid "clock w" m s l2] hd l2 by simp
    qed
  qed
qed

declare drain.simps [simp del]

text \<open>\<open>self.processing_channels.add\<close> and \<open>.discard\<close>.\<close>

definition processing_add :: "int \<Rightarrow> limiter \<Rightarrow> limiter" where
  "processing_add cid l = l\<lparr>processing_channels := insert cid (processing_channels l)\<rparr>"

definition processing_discard :: "int \<Rightarrow> limiter \<Rightarrow> limiter" where
  "processing_discard cid l = l\<lparr>processing_channels := processing_channels l - {cid}\<rparr>"

text \<open>
  \<open>_process_channel_queue\<close>, run from its first line to its \<open>finally\<close> with no other task
  in between. The early \<open>return\<close> of line 214 is before the \<open>try\<close>, so it does not reach
  the \<open>finally\<close>.
\<close>

definition process_channel_queue :: "bot \<Rightarrow> int \<Rightarrow> world \<Rightarrow> world" where
  "process_channel_queue b cid w =
     (if cid \<in> processing_channels (lstate w) then w
      else
        let w1 = w\<lparr>lstate := processing_add cid (lstate w)\<rparr>;
            w2 = (if \<not> get_channel b cid then w1\<lparr>lstate := set_queue cid [] (lstate w1)\<rparr>
                  else drain b cid (w1\<lparr>lstate := touch_queue cid (lstate w1)\<rparr>))
        in w2\<lparr>lstate := processing_discard cid (lstate w2)\<rparr>)"

section \<open>The dispatcher\<close>

text \<open>
  One pass of the \<open>while True\<close> of \<open>_process_queues\<close> at clock reading \<open>current_time\<close>:
  the channels for which it creates a worker task, in order, and the limiter. The tasks it
  creates start only after the pass has reached its \<open>asyncio.sleep\<close>.
\<close>

fun scan_channels :: "time \<Rightarrow> int list \<Rightarrow> limiter \<Rightarrow> int list \<times> limiter" where
  "scan_channels current_time [] l = ([], l)"
| "scan_channels current_time (cid # cids) l =
     (if queue_of l cid = [] then scan_channels current_time cids l
      else if cid \<in> processing_channels l then scan_channels current_time cids l
      else
        let (can, l1) = can_send_to_channel cid current_time l;
            (started, l2) = scan_channels current_time cids l1
        in (if can then cid # started else started, l2))"

definition process_queues_cycle :: "time \<Rightarrow> limiter \<Rightarrow> int list \<times> limiter" where
  "process_queues_cycle current_time l =
     (let (limited, l1) = is_globally_rate_limited current_time l
      in if limited then ([], l1)
         else scan_channels current_time (map fst (channel_queues l1)) l1)"

text \<open>The channels for which \<open>flush_all_queues\<close> creates a worker task.\<close>

definition flush_channels :: "limiter \<Rightarrow> int list" where
  "flush_channels l =
     filter (\<lambda>cid. queue_of l cid \<noteq> [] \<and> cid \<notin> processing_channels l)
       (map fst (channel_queues l))"

section \<open>Statistics\<close>

text \<open>
  The dictionary that \<open>get_queue_stats\<close> returns; the key \<open>processing_channels\<close> is the
  field \<open>processing_count\<close>. \<open>priority_breakdown\<close> is in the order in which the names
  were first counted.
\<close>

record stats =
  total_queued :: nat
  active_channels :: nat
  processing_count :: nat
  priority_breakdown :: "(string \<times> nat) list"
  global_rate_limit_active :: bool
  recent_global_messages :: nat

definition count_priority :: "(string \<times> nat) list \<Rightarrow> QueuedMessage \<Rightarrow> (string \<times> nat) list" where
  "count_priority priority_counts message =
     (let name = priority_name (priority message)
      in AList.update name
           ((case map_of priority_counts name of None \<Rightarrow> 0 | Some n \<Rightarrow> n) + 1)
           priority_counts)"

text \<open>
  \<open>get_queue_stats\<close> is a method of the limiter, so the model returns the limiter next to
  the result. \<open>now\<close> is the clock reading of the call.
\<close>

definition get_queue_stats :: "time \<Rightarrow> limiter \<Rightarrow> stats \<times> limiter" where
  "get_queue_stats now l =
     (let queues = map snd (channel_queues l);
          priority_counts = foldl (\<lambda>counts queue. foldl count_priority counts queue) [] queues
      in (\<lparr>total_queued = sum_list (map length queues),
           active_channels = length (filter (\<lambda>q. q \<noteq> []) queues),
           processing_count = card (processing_channels l),
           priority_breakdown = priority_counts,
           global_rate_limit_active = (now < global_rate_limit_reset l),
           recent_global_messages = length (global_message_times l)\<rparr>, l))"

section \<open>Tasks that interleave\<close>

text \<open>
  The tasks of the event loop run one at a time and give way only at an \<open>await\<close>. A worker
  task is created, then waits at one of the \<open>await\<close>s of \<open>_process_channel_queue\<close>, then
  is finished: \<open>AtLoopHead\<close> is the \<open>asyncio.sleep(0.1)\<close> at the end of a pass (and the
  start of the first pass), \<open>Sending\<close> is \<open>channel.send\<close>, with the message popped and the
  clock reading of the pass, and \<open>Backoff\<close> is the \<open>asyncio.sleep(retry_after)\<close> of
  \<open>_send_message\<close>.
\<close>

datatype phase =
    Created
  | AtLoopHead
  | Sending QueuedMessage time
  | Backoff QueuedMessage time
  | Finished

fun holds_claim :: "phase \<Rightarrow> bool" where
  "holds_claim Created = False"
| "holds_claim AtLoopHead = True"
| "holds_claim (Sending m t) = True"
| "holds_claim (Backoff m t) = True"
| "holds_claim Finished = False"

record system =
  shared :: limiter
  tasks :: "(int \<times> phase) list"

definition init_system :: system where
  "init_system = \<lparr>shared = init_limiter, tasks = []\<rparr>"

text \<open>
  One step is the code that one task runs between two \<open>await\<close>s, at any clock reading:
  a producer calls \<open>queue_message\<close>; the dispatcher makes a pass; \<open>flush_all_queues\<close>
  creates its tasks; a created worker runs lines 213 to 225; a worker runs the head of
  its loop; \<open>channel.send\<close> ends in some way; a sleep ends; a worker is cancelled or
  raises at an \<open>await\<close> and runs its \<open>finally\<close>.
\<close>

inductive step :: "builtins \<Rightarrow> bot \<Rightarrow> system \<Rightarrow> system \<Rightarrow> bool" for B :: builtins and b :: bot where
  submit:
    "step B b s (s\<lparr>shared := queue_message B t cid emb fl cont prio cb (shared s)\<rparr>)"
| dispatch:
    "process_queues_cycle t (shared s) = (started, l') \<Longrightarrow>
     step B b s (s\<lparr>shared := l', tasks := tasks s @ map (\<lambda>cid. (cid, Created)) started\<rparr>)"
| flush:
    "step B b s
       (s\<lparr>tasks := tasks s @ map (\<lambda>cid. (cid, Created)) (flush_channels (shared s))\<rparr>)"
| enter_claimed:
    "i < length (tasks s) \<Longrightarrow> tasks s ! i = (cid, Created) \<Longrightarrow>
     cid \<in> processing_channels (shared s) \<Longrightarrow>
     step B b s (s\<lparr>tasks := (tasks s)[i := (cid, Finished)]\<rparr>)"
| enter_not_found:
    "i < length (tasks s) \<Longrightarrow> tasks s ! i = (cid, Created) \<Longrightarrow>
     cid \<notin> processing_channels (shared s) \<Longrightarrow> \<not> get_channel b cid \<Longrightarrow>
     step B b s
       (s\<lparr>shared := processing_discard cid (set_queue cid [] (processing_add cid (shared s))),
          tasks := (tasks s)[i := (cid, Finished)]\<rparr>)"
| enter_loop:
    "i < length (tasks s) \<Longrightarrow> tasks s ! i = (cid, Created) \<Longrightarrow>
     cid \<notin> processing_channels (shared s) \<Longrightarrow> get_channel b cid \<Longrightarrow>
     step B b s
       (s\<lparr>shared := touch_queue cid (processing_add cid (shared s)),
          tasks := (tasks s)[i := (cid, AtLoopHead)]\<rparr>)"
| loop_pop:
    "i < length (tasks s) \<Longrightarrow> tasks s ! i = (cid, AtLoopHead) \<Longrightarrow>
     loop_head cid t (shared s) = (Some m, l') \<Longrightarrow>
     step B b s (s\<lparr>shared := l', tasks := (tasks s)[i := (cid, Sending m t)]\<rparr>)"
| loop_end:
    "i < length (tasks s) \<Longrightarrow> tasks s ! i = (cid, AtLoopHead) \<Longrightarrow>
     loop_head cid t (shared s) = (None, l') \<Longrightarrow>
     step B b s
       (s\<lparr>shared := processing_discard cid l', tasks := (tasks s)[i := (cid, Finished)]\<rparr>)"
| send_throttled:
    "i < length (tasks s) \<Longrightarrow> tasks s ! i = (cid, Sending m t0) \<Longrightarrow>
     send_message (RateLimited ra g) t (shared s) = (success, d, l') \<Longrightarrow>
     step B b s (s\<lparr>shared := l', tasks := (tasks s)[i := (cid, Backoff m t0)]\<rparr>)"
| send_returns:
    "i < length (tasks s) \<Longrightarrow> tasks s ! i = (cid, Sending m t0) \<Longrightarrow>
     r \<in> {Sent, HTTPError, OtherError} \<Longrightarrow>
     send_message r t (shared s) = (success, d, l') \<Longrightarrow>
     step B b s
       (s\<lparr>shared := after_send cid t0 m success l',
          tasks := (tasks s)[i := (cid, AtLoopHead)]\<rparr>)"
| backoff_over:
    "i < length (tasks s) \<Longrightarrow> tasks s ! i = (cid, Backoff m t0) \<Longrightarrow>
     step B b s
       (s\<lparr>shared := after_send cid t0 m False (shared s),
          tasks := (tasks s)[i := (cid, AtLoopHead)]\<rparr>)"
| worker_raises:
    "i < length (tasks s) \<Longrightarrow> tasks s ! i = (cid, ph) \<Longrightarrow> holds_claim ph \<Longrightarrow>
     step B b s
       (s\<lparr>shared := processing_discard cid (shared s),
          tasks := (tasks s)[i := (cid, Finished)]\<rparr>)"

inductive reachable :: "builtins \<Rightarrow> bot \<Rightarrow> system \<Rightarrow> bool" for B :: builtins and b :: bot where
  start: "reachable B b init_system"
| next_step: "reachable B b s \<Longrightarrow> step B b s s' \<Longrightarrow> reachable B b s'"

text \<open>The worker tasks that hold the claim of a channel.\<close>

definition claim_holders :: "system \<Rightarrow> int \<Rightarrow> (int \<times> phase) list" where
  "claim_holders s cid =
     filter (\<lambda>task. fst task = cid \<and> holds_claim (snd task)) (tasks s)"

text \<open>The channels of the worker tasks that hold a claim, one entry for each task.\<close>

definition held :: "(int \<times> phase) list \<Rightarrow> int list" where
  "held ts = map fst (filter (\<lambda>task. holds_claim (snd task)) ts)"

section \<open>Conditions used in the statements\<close>

text \<open>
  A worker for channel \<open>cid\<close> finds nothing in its way: no send is recorded in the
  channel's window or in the global window, the channel has no last-sent time, the global
  deadline is not ahead of the clock, and the clock is at least the minimum delay away
  from 0, the last-sent time that \<open>_can_send_to_channel\<close> takes for such a channel.
\<close>

definition quiet :: "int \<Rightarrow> world \<Rightarrow> bool" where
  "quiet cid w \<longleftrightarrow>
     channel_message_count (lstate w) cid = [] \<and> global_message_times (lstate w) = []
     \<and> channel_last_sent (lstate w) cid = None
     \<and> global_rate_limit_reset (lstate w) \<le> clock w \<and> MESSAGE_DELAY \<le> clock w"

text \<open>
  The invariant of the interleaved tasks: the tasks that hold a claim are on different
  channels, and each of these channels is in the processing set.
\<close>

definition claims_consistent :: "system \<Rightarrow> bool" where
  "claims_consistent s \<longleftrightarrow>
     distinct (held (tasks s)) \<and> set (held (tasks s)) \<subseteq> processing_channels (shared s)"

section \<open>Sample inputs\<close>

text \<open>
  Concrete values at which the theorems below are instantiated: an embed, a message of a
  given priority and arrival time for channel 1, and a limiter whose global deadline is 10.
\<close>

definition sample_embed :: Embed where
  "sample_embed =
     \<lparr>title = Some ''Kill'', description = Some ''A killed B'', embed_fields = [],
      footer = None\<rparr>"

definition sample_message :: "MessagePriority \<Rightarrow> time \<Rightarrow> QueuedMessage" where
  "sample_message prio t =
     \<lparr>channel_id = 1, embed = sample_embed, msg_file = None, content = None, priority = prio,
      timestamp = t, retry_count = 0, callback = None\<rparr>"

definition throttled_limiter :: limiter where
  "throttled_limiter = init_limiter\<lparr>global_rate_limit_reset := 10\<rparr>"

text \<open>A world with one message queued for channel 1: a new limiter at clock reading 1.\<close>

definition sample_world :: world where
  "sample_world =
     \<lparr>lstate = set_queue 1 [sample_message NORMAL 0] init_limiter, clock = 1, send_count = 0,
      trace = []\<rparr>"

text \<open>
  Bots that find every channel and whose transport always sends, always fails, fails
  twice and then sends, answers the first send with a global rate-limited response with
  retry-after 2 and sends from then on, and always answers with a rate-limited response
  that is not global and has retry-after 2.
\<close>

definition sending_bot :: bot where
  "sending_bot = \<lparr>get_channel = (\<lambda>cid. True), channel_send = (\<lambda>k. Sent)\<rparr>"

definition failing_bot :: bot where
  "failing_bot = \<lparr>get_channel = (\<lambda>cid. True), channel_send = (\<lambda>k. HTTPError)\<rparr>"

definition flaky_bot :: bot where
  "flaky_bot =
     \<lparr>get_channel = (\<lambda>cid. True), channel_send = (\<lambda>k. if k < 2 then HTTPError else Sent)\<rparr>"


definition throttling_bot :: bot where
  "throttling_bot =
     \<lparr>get_channel = (\<lambda>cid. True), channel_send = (\<lambda>k. RateLimited (Some 2) False)\<rparr>"

text \<open>
  An instance of the built-ins, enough for clock readings that are whole and not negative:
  the hash of a string is its length, a float is rendered as its integer part followed
  by \<open>.0\<close>, and \<open>float\<close> reads the digits before the point.
\<close>

definition digit_value :: "char \<Rightarrow> nat option" where
  "digit_value ch =
     map_of [(CHR ''0'', 0), (CHR ''1'', 1), (CHR ''2'', 2), (CHR ''3'', 3), (CHR ''4'', 4),
             (CHR ''5'', 5), (CHR ''6'', 6), (CHR ''7'', 7), (CHR ''8'', 8), (CHR ''9'', 9)] ch"

fun read_nat :: "string \<Rightarrow> nat \<Rightarrow> nat option" where
  "read_nat [] acc = Some acc"
| "read_nat (ch # s) acc =
     (case digit_value ch of None \<Rightarrow> None | Some d \<Rightarrow> read_nat s (10 * acc + d))"

definition sample_float :: "string \<Rightarrow> real option" where
  "sample_float s =
     (let whole = takeWhile (\<lambda>ch. ch \<noteq> CHR ''.'') s
      in if whole = [] then None else map_option real (read_nat whole 0))"

definition sample_builtins :: builtins where
  "sample_builtins =
     \<lparr>py_hash = (\<lambda>s. int (length s)),
      py_str_float = (\<lambda>t. str_int \<lfloor>t\<rfloor> @ ''.0''),
      py_float = sample_float\<rparr>"

text \<open>
  States of the interleaved tasks: after one \<open>queue_message\<close> for channel 1; with two
  worker tasks created for that channel; and after the first has entered its loop and the
  second has found the channel claimed. The last world has the limiter of that state.
\<close>

definition queued_system :: system where
  "queued_system =
     init_system\<lparr>shared := queue_message sample_builtins 0 1 sample_embed None None NORMAL None
                              (shared init_system)\<rparr>"

definition two_tasks_system :: system where
  "two_tasks_system = queued_system\<lparr>tasks := [(1, Created), (1, Created)]\<rparr>"

definition claimed_system :: system where
  "claimed_system =
     two_tasks_system\<lparr>shared := touch_queue 1 (processing_add 1 (shared two_tasks_system)),
                      tasks := [(1, AtLoopHead), (1, Finished)]\<rparr>"

definition claimed_world :: world where
  "claimed_world = \<lparr>lstate = shared claimed_system, clock = 1, send_count = 0, trace = []\<rparr>"

section \<open>Properties of the priority insertion\<close>

lemma insert_message_position:
  "insert_message m q =
     takeWhile (\<lambda>e. priority_value (priority e) \<le> priority_value (priority m)) q
     @ m # dropWhile (\<lambda>e. priority_value (priority e) \<le> priority_value (priority m)) q"
  by (induction q) auto

lemma set_insert_message: "set (insert_message m q) = insert m (set q)"
  by (induction q) auto

lemma sorted_insert_message:
  "sorted (map (\<lambda>e. priority_value (priority e)) q) \<Longrightarrow>
   sorted (map (\<lambda>e. priority_value (priority e)) (insert_message m q))"
  by (induction q) (auto simp: set_insert_message)

lemma filter_insert_message:
  assumes "sorted (map (\<lambda>e. priority_value (priority e)) q)"
  shows "filter (\<lambda>e. priority e = p) (insert_message m q) =
     filter (\<lambda>e. priority e = p) q @ (if priority m = p then [m] else [])"
  using assms
proof (induction q)
  case Nil
  show ?case by simp
next
  case (Cons e q)
  show ?case
  proof (cases "priority_value (priority m) < priority_value (priority e)")
    case True
    have later: "priority_value (priority m) < priority_value (priority x)"
      if "x \<in> set (e # q)" for x
      using that True Cons.prems by auto
    have "filter (\<lambda>x. priority x = p) (e # q) = []" if "priority m = p"
      unfolding filter_empty_conv using later that by fastforce
    then show ?thesis using True by auto
  next
    case False
    then show ?thesis using Cons by simp
  qed
qed

lemma sorted_foldl_insert_message:
  "sorted (map (\<lambda>e. priority_value (priority e)) q) \<Longrightarrow>
   sorted (map (\<lambda>e. priority_value (priority e))
     (foldl (\<lambda>queue message. insert_message message queue) q ms))"
  by (induction ms arbitrary: q) (simp_all add: sorted_insert_message)

lemma filter_foldl_insert_message:
  "sorted (map (\<lambda>e. priority_value (priority e)) q) \<Longrightarrow>
   filter (\<lambda>e. priority e = p) (foldl (\<lambda>queue message. insert_message message queue) q ms) =
     filter (\<lambda>e. priority e = p) q @ filter (\<lambda>e. priority e = p) ms"
proof (induction ms arbitrary: q)
  case Nil
  show ?case by simp
next
  case (Cons m ms)
  have "sorted (map (\<lambda>e. priority_value (priority e)) (insert_message m q))"
    using Cons.prems by (rule sorted_insert_message)
  from Cons.IH[OF this] show ?case
    by (simp add: filter_insert_message[OF Cons.prems])
qed

lemma sorted_enqueue_all: "sorted (map (\<lambda>e. priority_value (priority e)) (enqueue_all ms))"
  unfolding enqueue_all_def by (rule sorted_foldl_insert_message) simp

lemma head_most_urgent:
  assumes "sorted (map (\<lambda>e. priority_value (priority e)) q)" and "x \<in> set q"
  shows "priority_value (priority (hd q)) \<le> priority_value (priority x)"
  using assms by (cases q) auto

text \<open>
  C4. Stable priority insertion: a new message goes in front of the first queued message
  whose priority value is greater, and at the end when there is none. In the queue that
  any sequence of enqueues builds, no message is more urgent than the head, and the
  messages of each priority are in the order in which they arrived. More generally, an
  enqueue into a queue that is in priority order (as it stays when messages are popped
  from its head) keeps it in priority order and puts the new message behind the queued
  messages of its own priority.
\<close>

theorem stable_priority_insertion:
  "insert_message m q =
     takeWhile (\<lambda>e. \<not> priority_value (priority m) < priority_value (priority e)) q
     @ m # dropWhile (\<lambda>e. \<not> priority_value (priority m) < priority_value (priority e)) q
   \<and> (\<forall>x \<in> set (enqueue_all ms).
        priority_value (priority (hd (enqueue_all ms))) \<le> priority_value (priority x))
   \<and> (\<forall>p. filter (\<lambda>e. priority e = p) (enqueue_all ms) = filter (\<lambda>e. priority e = p) ms)
   \<and> (sorted (map (\<lambda>e. priority_value (priority e)) q) \<longrightarrow>
        sorted (map (\<lambda>e. priority_value (priority e)) (insert_message m q))
        \<and> (\<forall>p. filter (\<lambda>e. priority e = p) (insert_message m q) =
              filter (\<lambda>e. priority e = p) q @ (if priority m = p then [m] else [])))"
proof (intro conjI ballI allI impI)
  show "insert_message m q =
     takeWhile (\<lambda>e. \<not> priority_value (priority m) < priority_value (priority e)) q
     @ m # dropWhile (\<lambda>e. \<not> priority_value (priority m) < priority_value (priority e)) q"
    by (simp add: insert_message_position not_less)
next
  fix x assume "x \<in> set (enqueue_all ms)"
  then show "priority_value (priority (hd (enqueue_all ms))) \<le> priority_value (priority x)"
    using sorted_enqueue_all by (rule head_most_urgent[rotated])
next
  fix p
  show "filter (\<lambda>e. priority e = p) (enqueue_all ms) = filter (\<lambda>e. priority e = p) ms"
    unfolding enqueue_all_def by (simp add: filter_foldl_insert_message)
next
  assume "sorted (map (\<lambda>e. priority_value (priority e)) q)"
  then show "sorted (map (\<lambda>e. priority_value (priority e)) (insert_message m q))"
    by (rule sorted_insert_message)
next
  fix p
  assume "sorted (map (\<lambda>e. priority_value (priority e)) q)"
  then show "filter (\<lambda>e. priority e = p) (insert_message m q) =
              filter (\<lambda>e. priority e = p) q @ (if priority m = p then [m] else [])"
    by (rule filter_insert_message)
qed

theorem stable_priority_insertion_witness:
  "enqueue_all [sample_message CRITICAL 1, sample_message LOW 2, sample_message NORMAL 3,
                sample_message LOW 4]
     = [sample_message CRITICAL 1, sample_message NORMAL 3, sample_message LOW 2,
        sample_message LOW 4]
   \<and> sample_message LOW 4 \<in> set (enqueue_all [sample_message CRITICAL 1, sample_message LOW 2,
        sample_message NORMAL 3, sample_message LOW 4])
   \<and> priority_value (priority (hd (enqueue_all [sample_message CRITICAL 1,
        sample_message LOW 2, sample_message NORMAL 3, sample_message LOW 4])))
       \<le> priority_value (priority (sample_message LOW 4))
   \<and> filter (\<lambda>e. priority e = LOW) (enqueue_all [sample_message CRITICAL 1,
        sample_message LOW 2, sample_message NORMAL 3, sample_message LOW 4])
       = [sample_message LOW 2, sample_message LOW 4]
   \<and> sorted (map (\<lambda>e. priority_value (priority e))
        [sample_message CRITICAL 1, sample_message LOW 2])
   \<and> sorted (map (\<lambda>e. priority_value (priority e))
        (insert_message (sample_message LOW 4) [sample_message CRITICAL 1, sample_message LOW 2]))
   \<and> filter (\<lambda>e. priority e = LOW)
        (insert_message (sample_message LOW 4) [sample_message CRITICAL 1, sample_message LOW 2])
       = [sample_message LOW 2, sample_message LOW 4]"
proof -
  let ?ms = "[sample_message CRITICAL 1, sample_message LOW 2, sample_message NORMAL 3,
              sample_message LOW 4]"
  let ?q = "[sample_message CRITICAL 1, sample_message LOW 2]"
  have q: "enqueue_all ?ms = [sample_message CRITICAL 1, sample_message NORMAL 3,
             sample_message LOW 2, sample_message LOW 4]"
    by (simp add: enqueue_all_def sample_message_def)
  have mem: "sample_message LOW 4 \<in> set (enqueue_all ?ms)"
    by (simp add: q)
  have srt: "sorted (map (\<lambda>e. priority_value (priority e)) ?q)"
    by (simp add: sample_message_def)
  note main = stable_priority_insertion[of "sample_message LOW 4" ?q ?ms]
  from main mem have a: "priority_value (priority (hd (enqueue_all ?ms)))
       \<le> priority_value (priority (sample_message LOW 4))" by blast
  from main have "filter (\<lambda>e. priority e = LOW) (enqueue_all ?ms)
       = filter (\<lambda>e. priority e = LOW) ?ms" by blast
  then have b: "filter (\<lambda>e. priority e = LOW) (enqueue_all ?ms)
       = [sample_message LOW 2, sample_message LOW 4]"
    by (simp add: sample_message_def)
  from main srt
  have c: "sorted (map (\<lambda>e. priority_value (priority e)) (insert_message (sample_message LOW 4) ?q))"
    by blast
  from main srt
  have "filter (\<lambda>e. priority e = LOW) (insert_message (sample_message LOW 4) ?q)
      = filter (\<lambda>e. priority e = LOW) ?q @ (if priority (sample_message LOW 4) = LOW
          then [sample_message LOW 4] else [])"
    by blast
  then have d: "filter (\<lambda>e. priority e = LOW) (insert_message (sample_message LOW 4) ?q)
      = [sample_message LOW 2, sample_message LOW 4]"
    by (simp add: sample_message_def)
  from q mem a b srt c d show ?thesis by blast
qed

section \<open>The rate governor's checks\<close>

lemma snd_can_send_to_channel:
  "snd (can_send_to_channel cid t l) =
     l\<lparr>channel_message_count := (channel_message_count l)
         (cid := dropWhile (\<lambda>x. t - x > 5) (channel_message_count l cid))\<rparr>"
  by (simp add: can_send_to_channel_def Let_def)

lemma snd_is_globally_rate_limited:
  "snd (is_globally_rate_limited t l) =
     l\<lparr>global_message_times := dropWhile (\<lambda>x. t - x > 1) (global_message_times l)\<rparr>"
  by (simp add: is_globally_rate_limited_def Let_def)

lemma fst_is_globally_rate_limited:
  "fst (is_globally_rate_limited t l) \<longleftrightarrow>
     GLOBAL_RATE_LIMIT \<le> length (dropWhile (\<lambda>x. t - x > 1) (global_message_times l))
     \<or> t < global_rate_limit_reset l"
  by (simp add: is_globally_rate_limited_def Let_def)

lemma fst_can_send_to_channel:
  "fst (can_send_to_channel cid t l) \<longleftrightarrow>
     length (dropWhile (\<lambda>x. t - x > 5) (channel_message_count l cid)) < CHANNEL_RATE_LIMIT
     \<and> \<not> t - (case channel_last_sent l cid of None \<Rightarrow> 0 | Some x \<Rightarrow> x) < MESSAGE_DELAY"
  by (auto simp add: can_send_to_channel_def Let_def)

section \<open>What each operation leaves alone\<close>

lemma queue_of_set_queue [simp]:
  "queue_of (set_queue c q l) c' = (if c' = c then q else queue_of l c')"
  by (simp add: queue_of_def set_queue_def update_conv')

lemma set_queue_fields [simp]:
  "channel_last_sent (set_queue c q l) = channel_last_sent l"
  "channel_message_count (set_queue c q l) = channel_message_count l"
  "global_message_times (set_queue c q l) = global_message_times l"
  "processing_channels (set_queue c q l) = processing_channels l"
  "global_rate_limit_reset (set_queue c q l) = global_rate_limit_reset l"
  "rate_limit_reset (set_queue c q l) = rate_limit_reset l"
  "rate_limit_remaining (set_queue c q l) = rate_limit_remaining l"
  "recent_embeds (set_queue c q l) = recent_embeds l"
  by (simp_all add: set_queue_def)

lemma queue_of_updates [simp]:
  "queue_of (l\<lparr>channel_message_count := a\<rparr>) c = queue_of l c"
  "queue_of (l\<lparr>global_message_times := g\<rparr>) c = queue_of l c"
  "queue_of (l\<lparr>channel_last_sent := s\<rparr>) c = queue_of l c"
  "queue_of (l\<lparr>global_rate_limit_reset := r\<rparr>) c = queue_of l c"
  "queue_of (l\<lparr>processing_channels := p\<rparr>) c = queue_of l c"
  "queue_of (l\<lparr>recent_embeds := e\<rparr>) c = queue_of l c"
  by (simp_all add: queue_of_def)

lemma touch_queue_fields [simp]:
  "queue_of (touch_queue c l) c' = queue_of l c'"
  "channel_last_sent (touch_queue c l) = channel_last_sent l"
  "channel_message_count (touch_queue c l) = channel_message_count l"
  "global_message_times (touch_queue c l) = global_message_times l"
  "processing_channels (touch_queue c l) = processing_channels l"
  "global_rate_limit_reset (touch_queue c l) = global_rate_limit_reset l"
  by (simp_all add: touch_queue_def)

lemma processing_fields [simp]:
  "queue_of (processing_add c l) c' = queue_of l c'"
  "channel_last_sent (processing_add c l) = channel_last_sent l"
  "channel_message_count (processing_add c l) = channel_message_count l"
  "global_message_times (processing_add c l) = global_message_times l"
  "processing_channels (processing_add c l) = insert c (processing_channels l)"
  "global_rate_limit_reset (processing_add c l) = global_rate_limit_reset l"
  "queue_of (processing_discard c l) c' = queue_of l c'"
  "channel_last_sent (processing_discard c l) = channel_last_sent l"
  "channel_message_count (processing_discard c l) = channel_message_count l"
  "global_message_times (processing_discard c l) = global_message_times l"
  "processing_channels (processing_discard c l) = processing_channels l - {c}"
  "global_rate_limit_reset (processing_discard c l) = global_rate_limit_reset l"
  by (simp_all add: processing_add_def processing_discard_def)

lemma sleep_fields [simp]:
  "lstate (sleep d w) = lstate w" "send_count (sleep d w) = send_count w"
  "trace (sleep d w) = trace w" "clock (sleep d w) = clock w + max 0 d"
  by (simp_all add: sleep_def)

lemma deque_append_room: "length xs < n \<Longrightarrow> deque_append n xs x = xs @ [x]"
  by (simp add: deque_append_def)

lemma send_message_success: "fst (send_message r t l) \<longleftrightarrow> r = Sent"
  by (cases r) (simp_all add: Let_def)

lemma send_message_windows:
  "global_message_times (snd (snd (send_message r t l))) = global_message_times l"
  "channel_message_count (snd (snd (send_message r t l))) = channel_message_count l"
  "channel_last_sent (snd (snd (send_message r t l))) = channel_last_sent l"
  "channel_queues (snd (snd (send_message r t l))) = channel_queues l"
  "processing_channels (snd (snd (send_message r t l))) = processing_channels l"
  by (cases r; simp add: Let_def)+

lemma send_message_queue: "queue_of (snd (snd (send_message r t l))) c = queue_of l c"
  by (cases r) (simp_all add: Let_def)

lemma send_message_reset:
  "global_rate_limit_reset (snd (snd (send_message r t l))) \<le> max (global_rate_limit_reset l) (t + max 0 (fst (snd (send_message r t l))))"
  by (cases r) (auto simp: Let_def)

lemma after_send_queue:
  "queue_of (after_send cid t m success l) cid =
     (if success then queue_of l cid
      else if retry_count m + 1 < 3 then m\<lparr>retry_count := retry_count m + 1\<rparr> # queue_of l cid
      else queue_of l cid)"
  by (simp add: after_send_def Let_def)

lemma after_send_failed_fields:
  "channel_message_count (after_send cid t m False l) = channel_message_count l"
  "global_message_times (after_send cid t m False l) = global_message_times l"
  "channel_last_sent (after_send cid t m False l) = channel_last_sent l"
  "global_rate_limit_reset (after_send cid t m s l) = global_rate_limit_reset l"
  "processing_channels (after_send cid t m s l) = processing_channels l"
  by (simp_all add: after_send_def Let_def)

lemma after_send_rate_limit_reset:
  "rate_limit_reset (after_send cid t m s l) = rate_limit_reset l"
  "rate_limit_remaining (after_send cid t m s l) = rate_limit_remaining l"
  by (simp_all add: after_send_def Let_def)

section \<open>The passes of the worker's loop\<close>

text \<open>What the head of the loop has checked and done when it pops a message.\<close>

lemma loop_head_Some:
  assumes "loop_head cid t l = (Some m, l1)"
  shows "queue_of l cid = m # queue_of l1 cid"
    and "l1 = set_queue cid (queue_of l1 cid)
           (l\<lparr>channel_message_count := (channel_message_count l)
                 (cid := dropWhile (\<lambda>x. t - x > 5) (channel_message_count l cid)),
              global_message_times := dropWhile (\<lambda>x. t - x > 1) (global_message_times l)\<rparr>)"
    and "fst (can_send_to_channel cid t l)"
    and "length (dropWhile (\<lambda>x. t - x > 1) (global_message_times l)) < GLOBAL_RATE_LIMIT"
    and "\<not> t < global_rate_limit_reset l"
proof -
  obtain rest where q: "queue_of l cid = m # rest"
    using assms by (auto simp: loop_head_def split: list.splits prod.splits if_splits)
  obtain can la where c: "can_send_to_channel cid t l = (can, la)" by (cases "can_send_to_channel cid t l")
  obtain lim lb where g: "is_globally_rate_limited t la = (lim, lb)" by (cases "is_globally_rate_limited t la")
  have res: "can" "\<not> lim" "l1 = set_queue cid rest lb"
    using assms q c g by (auto simp: loop_head_def split: if_splits)
  have la: "la = snd (can_send_to_channel cid t l)" using c by simp
  have lb: "lb = snd (is_globally_rate_limited t la)" using g by simp
  have lim: "lim = fst (is_globally_rate_limited t la)" using g by simp
  show "queue_of l cid = m # queue_of l1 cid" using q res by simp
  show "l1 = set_queue cid (queue_of l1 cid)
           (l\<lparr>channel_message_count := (channel_message_count l)
                 (cid := dropWhile (\<lambda>x. t - x > 5) (channel_message_count l cid)),
              global_message_times := dropWhile (\<lambda>x. t - x > 1) (global_message_times l)\<rparr>)"
    using res by (simp add: la lb snd_can_send_to_channel snd_is_globally_rate_limited)
  show "fst (can_send_to_channel cid t l)" using c res by simp
  show "length (dropWhile (\<lambda>x. t - x > 1) (global_message_times l)) < GLOBAL_RATE_LIMIT"
    using res(2) unfolding lim la fst_is_globally_rate_limited snd_can_send_to_channel by simp
  show "\<not> t < global_rate_limit_reset l"
    using res(2) unfolding lim la fst_is_globally_rate_limited snd_can_send_to_channel by simp
qed

lemma loop_head_queue: "queue_of (snd (loop_head cid t l)) c = (if c = cid \<and> fst (loop_head cid t l) \<noteq> None then tl (queue_of l cid) else queue_of l c)"
  by (auto simp: loop_head_def can_send_to_channel_def is_globally_rate_limited_def Let_def split: list.splits)


lemma loop_head_eligible:
  assumes "queue_of l cid = m # rest" and "fst (can_send_to_channel cid now l)"
    and "length (dropWhile (\<lambda>x. now - x > 1) (global_message_times l)) < GLOBAL_RATE_LIMIT"
    and "global_rate_limit_reset l \<le> now"
  shows "fst (loop_head cid now l) = Some m"
proof -
  have "\<not> fst (is_globally_rate_limited now (snd (can_send_to_channel cid now l)))"
    using assms(3,4) by (simp add: fst_is_globally_rate_limited snd_can_send_to_channel)
  then show ?thesis
    using assms(1,2) by (auto simp: loop_head_def split: prod.splits)
qed

text \<open>One pass that pops a message, in terms of its three parts.\<close>

lemma loop_iteration_Some:
  assumes "loop_head cid (clock w) (lstate w) = (Some m, l1)"
    and "send_message (channel_send b (send_count w)) (clock w) l1 = (success, d, l2)"
  shows "fst (loop_iteration b cid w)"
    and "lstate (snd (loop_iteration b cid w)) = after_send cid (clock w) m success l2"
    and "send_count (snd (loop_iteration b cid w)) = send_count w + 1"
    and "clock (snd (loop_iteration b cid w)) = clock w + max 0 d + 1 / 10"
    and "trace (snd (loop_iteration b cid w)) =
           trace w @ [Attempt m (channel_send b (send_count w))] @
             (if success then (case callback m of None \<Rightarrow> [] | Some f \<Rightarrow> [CallbackRun f])
              else if retry_count m + 1 < 3 then []
              else [LogFailed (m\<lparr>retry_count := retry_count m + 1\<rparr>)])"
  using assms by (simp_all add: loop_iteration_def Let_def)

lemma loop_iteration_True:
  assumes "loop_iteration b cid w = (True, w')"
  obtains m l1 where "loop_head cid (clock w) (lstate w) = (Some m, l1)"
proof (cases "loop_head cid (clock w) (lstate w)")
  case (Pair a l1)
  show thesis
  proof (cases a)
    case None
    with Pair assms show thesis by (simp add: loop_iteration_def)
  next
    case (Some m)
    with Pair that show thesis by simp
  qed
qed

lemma loop_iteration_no_pop:
  assumes "fst (loop_head cid (clock w) (lstate w)) = None"
  shows "\<not> fst (loop_iteration b cid w)"
    and "send_count (snd (loop_iteration b cid w)) = send_count w"
    and "trace (snd (loop_iteration b cid w)) = trace w"
    and "clock (snd (loop_iteration b cid w)) = clock w"
    and "lstate (snd (loop_iteration b cid w)) = snd (loop_head cid (clock w) (lstate w))"
  using assms by (cases "loop_head cid (clock w) (lstate w)"; simp add: loop_iteration_def)+

lemma loop_iteration_empty:
  assumes "queue_of (lstate w) cid = []"
  shows "\<not> fst (loop_iteration b cid w)" and "snd (loop_iteration b cid w) = w"
  using assms by (simp_all add: loop_iteration_def loop_head_def)

lemma drain_stop: "\<not> fst (loop_iteration b cid w) \<Longrightarrow> drain b cid w = snd (loop_iteration b cid w)"
  by (subst drain.simps) (auto split: prod.splits bool.splits)

lemma drain_step: "fst (loop_iteration b cid w) \<Longrightarrow> drain b cid w = drain b cid (snd (loop_iteration b cid w))"
  by (subst drain.simps) (auto split: prod.splits bool.splits)

lemma process_channel_queue_run:
  assumes "cid \<notin> processing_channels (lstate w)" and "get_channel b cid"
  shows "process_channel_queue b cid w =
           (drain b cid (w\<lparr>lstate := touch_queue cid (processing_add cid (lstate w))\<rparr>))
             \<lparr>lstate := processing_discard cid
                (lstate (drain b cid
                   (w\<lparr>lstate := touch_queue cid (processing_add cid (lstate w))\<rparr>)))\<rparr>"
  using assms by (simp add: process_channel_queue_def Let_def)

lemma sample_world_head:
  "loop_head 1 1 (lstate sample_world) = (Some (sample_message NORMAL 0), set_queue 1 [] (set_queue 1 [sample_message NORMAL 0] init_limiter))"
  apply (simp add: sample_world_def loop_head_def can_send_to_channel_def is_globally_rate_limited_def Let_def
      init_limiter_def CHANNEL_RATE_LIMIT_def GLOBAL_RATE_LIMIT_def MESSAGE_DELAY_def)
  apply (simp add: set_queue_def fun_eq_iff)
  done

lemma sample_world_quiet: "quiet 1 sample_world"
  by (simp add: quiet_def sample_world_def init_limiter_def MESSAGE_DELAY_def)

lemma sample_world_fields:
  "queue_of (lstate sample_world) 1 = [sample_message NORMAL 0]"
  "processing_channels (lstate sample_world) = {}"
  "send_count sample_world = 0" "trace sample_world = []" "clock sample_world = 1"
  by (simp_all add: sample_world_def init_limiter_def)

section \<open>Statistics (C10, C9)\<close>

text \<open>
  C10. \<open>get_queue_stats\<close> is read-only: the limiter after the call is the limiter before
  it, in every attribute (queues, both windows, last-sent times, dedup records, throttle
  deadlines, processing set).
\<close>

theorem stats_read_only: "snd (get_queue_stats now l) = l"
  by (simp add: get_queue_stats_def Let_def)

text \<open>
  C9 as stated fails. The flag \<open>global_rate_limit_active\<close> compares the clock with the
  global deadline, so two calls with nothing in between but the passing of time differ:
  with the deadline at 10, the call at 9 reports the flag set and the call at 11 reports
  it clear.
\<close>

theorem stats_flag_counterexample:
  "fst (get_queue_stats 11 (snd (get_queue_stats 9 throttled_limiter)))
     \<noteq> fst (get_queue_stats 9 throttled_limiter)"
  by (simp add: get_queue_stats_def throttled_limiter_def init_limiter_def)

text \<open>
  C9, amended. Two consecutive calls of \<open>get_queue_stats\<close>, at clock readings \<open>t1\<close> and
  \<open>t2\<close>, return the same total queued, active channels, processing channels, priority
  breakdown and recent global message count; the whole result is the same when both
  clock readings are on the same side of the global deadline.
\<close>

theorem stats_idempotent:
  "total_queued (fst (get_queue_stats t2 (snd (get_queue_stats t1 l))))
     = total_queued (fst (get_queue_stats t1 l))
   \<and> active_channels (fst (get_queue_stats t2 (snd (get_queue_stats t1 l))))
     = active_channels (fst (get_queue_stats t1 l))
   \<and> processing_count (fst (get_queue_stats t2 (snd (get_queue_stats t1 l))))
     = processing_count (fst (get_queue_stats t1 l))
   \<and> priority_breakdown (fst (get_queue_stats t2 (snd (get_queue_stats t1 l))))
     = priority_breakdown (fst (get_queue_stats t1 l))
   \<and> recent_global_messages (fst (get_queue_stats t2 (snd (get_queue_stats t1 l))))
     = recent_global_messages (fst (get_queue_stats t1 l))
   \<and> ((t1 < global_rate_limit_reset l) = (t2 < global_rate_limit_reset l) \<longrightarrow>
        fst (get_queue_stats t2 (snd (get_queue_stats t1 l))) = fst (get_queue_stats t1 l))"
  by (simp add: get_queue_stats_def Let_def)

theorem stats_idempotent_witness:
  "((9::real) < global_rate_limit_reset throttled_limiter)
     = (9.5 < global_rate_limit_reset throttled_limiter)
   \<and> fst (get_queue_stats 9.5 (snd (get_queue_stats 9 throttled_limiter)))
       = fst (get_queue_stats 9 throttled_limiter)"
proof -
  have h: "((9::real) < global_rate_limit_reset throttled_limiter)
     = (9.5 < global_rate_limit_reset throttled_limiter)"
    by (simp add: throttled_limiter_def)
  with stats_idempotent[where ?t1.0 = 9 and ?t2.0 = "9.5" and l = throttled_limiter]
  show ?thesis by blast
qed

section \<open>Throttle responses (C3)\<close>

text \<open>
  C3 as stated fails. A rate-limited response that is not global changes no attribute of
  the limiter, and \<open>_can_send_to_channel\<close> reads no throttle deadline: after such a
  response at time 100 with \<open>retry_after = 10\<close>, the check for that channel at time 101,
  before the deadline 110, still answers that the channel can be sent to.
\<close>

theorem channel_throttle_counterexample:
  "fst (can_send_to_channel 1 101
         (snd (snd (send_message (RateLimited (Some 10) False) 100 init_limiter))))
   \<and> (101::real) < 100 + 10"
  by (simp add: can_send_to_channel_def init_limiter_def CHANNEL_RATE_LIMIT_def MESSAGE_DELAY_def)

text \<open>
  C3, amended. On a rate-limited response handled at time \<open>t\<close>, \<open>_send_message\<close> fails
  and sleeps \<open>retry_after\<close> (1 when the response carries none). If the response is
  global, the global deadline becomes \<open>t + retry_after\<close>, and the global check says
  limited at every time before it. If it is not global, the limiter is unchanged. In
  both cases \<open>_can_send_to_channel\<close> answers for every channel as it did before.
\<close>

theorem record_throttle:
  assumes "send_message (RateLimited ra is_global) t l = (success, d, l')"
  shows "\<not> success \<and> d = (case ra of None \<Rightarrow> 1 | Some r \<Rightarrow> r)
    \<and> (is_global \<longrightarrow> l' = l\<lparr>global_rate_limit_reset := t + d\<rparr>
          \<and> (\<forall>now. now < t + d \<longrightarrow> fst (is_globally_rate_limited now l')))
    \<and> (\<not> is_global \<longrightarrow> l' = l)
    \<and> (\<forall>cid now. fst (can_send_to_channel cid now l') = fst (can_send_to_channel cid now l))"
proof (cases is_global)
  case True
  with assms show ?thesis
    by (auto simp: Let_def fst_is_globally_rate_limited fst_can_send_to_channel)
next
  case False
  with assms show ?thesis by (auto simp: Let_def)
qed

theorem record_throttle_witness:
  "send_message (RateLimited (Some 2) True) 100 init_limiter
     = (False, 2, init_limiter\<lparr>global_rate_limit_reset := 102\<rparr>)
   \<and> (101::real) < 100 + 2
   \<and> fst (is_globally_rate_limited 101 (init_limiter\<lparr>global_rate_limit_reset := 102\<rparr>))
   \<and> send_message (RateLimited (Some 2) False) 100 init_limiter = (False, 2, init_limiter)"
proof -
  have a: "send_message (RateLimited (Some 2) True) 100 init_limiter
     = (False, 2, init_limiter\<lparr>global_rate_limit_reset := 102\<rparr>)"
    by simp
  have b: "send_message (RateLimited (Some 2) False) 100 init_limiter = (False, 2, init_limiter)"
    by simp
  have c: "(101::real) < 100 + 2" by simp
  from record_throttle[OF a] c
  have "fst (is_globally_rate_limited 101 (init_limiter\<lparr>global_rate_limit_reset := 102\<rparr>))"
    by simp
  with a b c show ?thesis by simp
qed

section \<open>Recording of sends (C6)\<close>

text \<open>
  C6. Send recording. In a pass of the worker's loop that attempts a send at clock reading
  \<open>clock w\<close>: when the send succeeds, both windows are the purged windows with that
  clock reading appended once at the end, and the last-sent time of the channel is that
  clock reading; when the send fails, both windows are the purged windows with nothing
  appended, and the last-sent times are unchanged.
\<close>

theorem send_recording:
  assumes "loop_iteration b cid w = (True, w')"
  shows "(channel_send b (send_count w) = Sent \<longrightarrow>
            global_message_times (lstate w') =
              dropWhile (\<lambda>x. clock w - x > 1) (global_message_times (lstate w)) @ [clock w]
          \<and> channel_message_count (lstate w') = (channel_message_count (lstate w))
              (cid := dropWhile (\<lambda>x. clock w - x > 5) (channel_message_count (lstate w) cid)
                        @ [clock w])
          \<and> channel_last_sent (lstate w') = (channel_last_sent (lstate w))(cid \<mapsto> clock w))
       \<and> (channel_send b (send_count w) \<noteq> Sent \<longrightarrow>
            global_message_times (lstate w') =
              dropWhile (\<lambda>x. clock w - x > 1) (global_message_times (lstate w))
          \<and> channel_message_count (lstate w') = (channel_message_count (lstate w))
              (cid := dropWhile (\<lambda>x. clock w - x > 5) (channel_message_count (lstate w) cid))
          \<and> channel_last_sent (lstate w') = channel_last_sent (lstate w))"
proof -
  from assms obtain m l1 where lh: "loop_head cid (clock w) (lstate w) = (Some m, l1)"
    by (rule loop_iteration_True)
  let ?r = "channel_send b (send_count w)"
  obtain success d l2 where sm: "send_message ?r (clock w) l1 = (success, d, l2)"
    by (metis prod_cases3)
  have w': "lstate w' = after_send cid (clock w) m success l2"
    using loop_iteration_Some(2)[OF lh sm] assms by simp
  have succ: "success \<longleftrightarrow> ?r = Sent"
    using send_message_success[of ?r "clock w" l1] sm by simp
  have l2: "global_message_times l2 = global_message_times l1"
    "channel_message_count l2 = channel_message_count l1"
    "channel_last_sent l2 = channel_last_sent l1"
    using send_message_windows[of ?r "clock w" l1] sm by simp_all
  note h = loop_head_Some[OF lh]
  have g1: "global_message_times l1
              = dropWhile (\<lambda>x. clock w - x > 1) (global_message_times (lstate w))"
    by (subst h(2)) simp
  have c1: "channel_message_count l1 = (channel_message_count (lstate w))
              (cid := dropWhile (\<lambda>x. clock w - x > 5) (channel_message_count (lstate w) cid))"
    by (subst h(2)) simp
  have s1: "channel_last_sent l1 = channel_last_sent (lstate w)"
    by (subst h(2)) simp
  have groom: "length (global_message_times l1) < GLOBAL_RATE_LIMIT"
    using h(4) g1 by simp
  have croom: "length (channel_message_count l1 cid) < CHANNEL_RATE_LIMIT"
    using h(3) c1 by (simp add: fst_can_send_to_channel)
  show ?thesis
  proof (cases success)
    case True
    then show ?thesis
      using succ w' l2 groom croom
      by (simp add: after_send_def deque_append_room g1[symmetric] c1[symmetric] s1[symmetric])
        (simp add: c1)
  next
    case False
    then show ?thesis
      using succ w' l2 by (simp add: after_send_def Let_def g1 c1 s1)
  qed
qed

theorem send_recording_witness:
  "loop_iteration sending_bot 1 sample_world = (True, snd (loop_iteration sending_bot 1 sample_world))
   \<and> channel_send sending_bot (send_count sample_world) = Sent
   \<and> global_message_times (lstate (snd (loop_iteration sending_bot 1 sample_world))) = [1]
   \<and> channel_message_count (lstate (snd (loop_iteration sending_bot 1 sample_world))) 1 = [1]
   \<and> channel_last_sent (lstate (snd (loop_iteration sending_bot 1 sample_world))) 1 = Some 1
   \<and> loop_iteration failing_bot 1 sample_world = (True, snd (loop_iteration failing_bot 1 sample_world))
   \<and> channel_send failing_bot (send_count sample_world) \<noteq> Sent
   \<and> global_message_times (lstate (snd (loop_iteration failing_bot 1 sample_world))) = []
   \<and> channel_message_count (lstate (snd (loop_iteration failing_bot 1 sample_world))) 1 = []
   \<and> channel_last_sent (lstate (snd (loop_iteration failing_bot 1 sample_world))) 1 = None"
proof -
  have c: "clock sample_world = 1" by (simp add: sample_world_def)
  have lh: "loop_head 1 (clock sample_world) (lstate sample_world)
     = (Some (sample_message NORMAL 0),
        set_queue 1 [] (set_queue 1 [sample_message NORMAL 0] init_limiter))"
    unfolding c by (rule sample_world_head)
  have a: "loop_iteration sending_bot 1 sample_world
             = (True, snd (loop_iteration sending_bot 1 sample_world))"
    using loop_iteration_Some(1)[OF lh, of sending_bot]
    by (cases "loop_iteration sending_bot 1 sample_world") (simp add: prod_eq_iff prod_cases3)
  have b: "loop_iteration failing_bot 1 sample_world
             = (True, snd (loop_iteration failing_bot 1 sample_world))"
    using loop_iteration_Some(1)[OF lh, of failing_bot]
    by (cases "loop_iteration failing_bot 1 sample_world") (simp add: prod_eq_iff prod_cases3)
  have s: "channel_send sending_bot (send_count sample_world) = Sent"
    by (simp add: sending_bot_def)
  have f: "channel_send failing_bot (send_count sample_world) \<noteq> Sent"
    by (simp add: failing_bot_def)
  have init: "global_message_times (lstate sample_world) = []"
     "channel_message_count (lstate sample_world) = (\<lambda>c. [])"
     "channel_last_sent (lstate sample_world) = Map.empty"
    by (simp_all add: sample_world_def init_limiter_def)
  from send_recording[OF a] s
  have 1: "global_message_times (lstate (snd (loop_iteration sending_bot 1 sample_world))) = [1]
   \<and> channel_message_count (lstate (snd (loop_iteration sending_bot 1 sample_world))) 1 = [1]
   \<and> channel_last_sent (lstate (snd (loop_iteration sending_bot 1 sample_world))) 1 = Some 1"
    by (simp add: init c)
  from send_recording[OF b] f
  have 2: "global_message_times (lstate (snd (loop_iteration failing_bot 1 sample_world))) = []
   \<and> channel_message_count (lstate (snd (loop_iteration failing_bot 1 sample_world))) 1 = []
   \<and> channel_last_sent (lstate (snd (loop_iteration failing_bot 1 sample_world))) 1 = None"
    by (simp add: init c)
  from a b s f 1 2 show ?thesis by blast
qed

section \<open>While the global deadline is ahead\<close>



section \<open>Retries (C5)\<close>

text \<open>A pass that goes on has called the transport once and used up some of the budget.\<close>

lemma loop_iteration_budget:
  "send_count (snd (loop_iteration b cid w))
     + retry_budget (queue_of (lstate (snd (loop_iteration b cid w))) cid)
   \<le> send_count w + retry_budget (queue_of (lstate w) cid)"
proof (cases "loop_head cid (clock w) (lstate w)")
  case (Pair nxt l1)
  show ?thesis
  proof (cases nxt)
    case None
    then have n: "fst (loop_head cid (clock w) (lstate w)) = None" using Pair by simp
    show ?thesis
      using loop_iteration_no_pop[OF n, of b] loop_head_queue[of cid "clock w" "lstate w" cid] n
      by simp
  next
    case (Some m)
    with Pair have lh: "loop_head cid (clock w) (lstate w) = (Some m, l1)" by simp
    obtain s d l2 where sm: "send_message (channel_send b (send_count w)) (clock w) l1 = (s, d, l2)"
      by (metis prod_cases3)
    have q2: "queue_of l2 cid = queue_of l1 cid"
      using send_message_queue[of "channel_send b (send_count w)" "clock w" l1 cid] sm by simp
    have q: "queue_of (lstate w) cid = m # queue_of l1 cid"
      by (rule loop_head_Some(1)[OF lh])
    show ?thesis
      using loop_iteration_Some(2,3)[OF lh sm] q q2
      by (auto simp: after_send_queue retry_budget_def)
  qed
qed

lemma drain_budget:
  "send_count (drain b cid w) + retry_budget (queue_of (lstate (drain b cid w)) cid)
   \<le> send_count w + retry_budget (queue_of (lstate w) cid)"
proof (induction b cid w rule: drain.induct)
  case (1 b cid w)
  show ?case
  proof (cases "fst (loop_iteration b cid w)")
    case False
    then show ?thesis using loop_iteration_budget[of b cid w] by (simp add: drain_stop)
  next
    case True
    then have "loop_iteration b cid w = (True, snd (loop_iteration b cid w))"
      by (cases "loop_iteration b cid w") simp
    from "1.IH"[OF this[symmetric] refl] loop_iteration_budget[of b cid w]
    show ?thesis using True by (simp add: drain_step)
  qed
qed

lemma process_channel_queue_budget:
  "send_count (process_channel_queue b cid w)
     + retry_budget (queue_of (lstate (process_channel_queue b cid w)) cid)
   \<le> send_count w + retry_budget (queue_of (lstate w) cid)"
  using drain_budget[of b cid "w\<lparr>lstate := touch_queue cid (processing_add cid (lstate w))\<rparr>"]
  by (simp add: process_channel_queue_def Let_def retry_budget_def)

lemma quiet_pop:
  assumes "quiet cid w" and "queue_of (lstate w) cid = m # rest"
  obtains l1 where "loop_head cid (clock w) (lstate w) = (Some m, l1)"
    and "queue_of l1 cid = rest" and "channel_message_count l1 cid = []"
    and "global_message_times l1 = []" and "channel_last_sent l1 cid = None"
    and "global_rate_limit_reset l1 = global_rate_limit_reset (lstate w)"
proof -
  have can: "fst (can_send_to_channel cid (clock w) (lstate w))"
    using assms(1) by (simp add: quiet_def fst_can_send_to_channel CHANNEL_RATE_LIMIT_def)
  have "fst (loop_head cid (clock w) (lstate w)) = Some m"
    using assms(2) can
  proof (rule loop_head_eligible)
    show "length (dropWhile (\<lambda>x. clock w - x > 1) (global_message_times (lstate w)))
            < GLOBAL_RATE_LIMIT"
      using assms(1) by (simp add: quiet_def GLOBAL_RATE_LIMIT_def)
    show "global_rate_limit_reset (lstate w) \<le> clock w"
      using assms(1) by (simp add: quiet_def)
  qed
  then obtain l1 where lh: "loop_head cid (clock w) (lstate w) = (Some m, l1)"
    by (cases "loop_head cid (clock w) (lstate w)") simp
  note h = loop_head_Some[OF lh]
  have "queue_of l1 cid = rest" using h(1) assms(2) by simp
  moreover have "channel_message_count l1 cid = []"
    using assms(1) by (subst h(2)) (simp add: quiet_def)
  moreover have "global_message_times l1 = []"
    using assms(1) by (subst h(2)) (simp add: quiet_def)
  moreover have "channel_last_sent l1 cid = None"
    using assms(1) by (subst h(2)) (simp add: quiet_def)
  moreover have "global_rate_limit_reset l1 = global_rate_limit_reset (lstate w)"
    by (subst h(2)) simp
  ultimately show thesis using lh that by blast
qed

lemma quiet_failed_pass:
  assumes "quiet cid w" and "queue_of (lstate w) cid = m # rest"
    and "channel_send b (send_count w) \<noteq> Sent"
  shows "fst (loop_iteration b cid w)"
    and "quiet cid (snd (loop_iteration b cid w))"
    and "queue_of (lstate (snd (loop_iteration b cid w))) cid =
           (if retry_count m + 1 < 3 then m\<lparr>retry_count := retry_count m + 1\<rparr> # rest else rest)"
    and "send_count (snd (loop_iteration b cid w)) = send_count w + 1"
    and "trace (snd (loop_iteration b cid w)) =
           trace w @ Attempt m (channel_send b (send_count w)) #
             (if retry_count m + 1 < 3 then []
              else [LogFailed (m\<lparr>retry_count := retry_count m + 1\<rparr>)])"
proof -
  let ?r = "channel_send b (send_count w)"
  from assms(1,2) obtain l1 where lh: "loop_head cid (clock w) (lstate w) = (Some m, l1)"
    and l1: "queue_of l1 cid = rest" "channel_message_count l1 cid = []"
      "global_message_times l1 = []" "channel_last_sent l1 cid = None"
      "global_rate_limit_reset l1 = global_rate_limit_reset (lstate w)"
    by (rule quiet_pop)
  obtain s d l2 where sm: "send_message ?r (clock w) l1 = (s, d, l2)"
    by (metis prod_cases3)
  have s: "\<not> s" using send_message_success[of ?r "clock w" l1] sm assms(3) by simp
  have l2: "queue_of l2 cid = rest" "channel_message_count l2 cid = []"
      "global_message_times l2 = []" "channel_last_sent l2 cid = None"
    using send_message_queue[of ?r "clock w" l1 cid] send_message_windows[of ?r "clock w" l1]
      sm l1 by simp_all
  have r2: "global_rate_limit_reset l2 \<le> clock w + max 0 d"
    using send_message_reset[of ?r "clock w" l1] sm l1(5) assms(1) by (auto simp: quiet_def max_def split: if_splits)
  note it = loop_iteration_Some[OF lh sm]
  show "fst (loop_iteration b cid w)" by (rule it(1))
  show "quiet cid (snd (loop_iteration b cid w))"
    using s l2 r2 assms(1)
    by (auto simp: quiet_def it(2,4) after_send_failed_fields max_def)
  show "queue_of (lstate (snd (loop_iteration b cid w))) cid =
           (if retry_count m + 1 < 3 then m\<lparr>retry_count := retry_count m + 1\<rparr> # rest else rest)"
    using s l2 by (simp add: it(2) after_send_queue)
  show "send_count (snd (loop_iteration b cid w)) = send_count w + 1" by (rule it(3))
  show "trace (snd (loop_iteration b cid w)) =
           trace w @ Attempt m (channel_send b (send_count w)) #
             (if retry_count m + 1 < 3 then []
              else [LogFailed (m\<lparr>retry_count := retry_count m + 1\<rparr>)])"
    using s by (simp add: it(5))
qed

lemma quiet_sent_pass:
  assumes "quiet cid w" and "queue_of (lstate w) cid = m # rest"
    and "channel_send b (send_count w) = Sent"
  shows "fst (loop_iteration b cid w)"
    and "queue_of (lstate (snd (loop_iteration b cid w))) cid = rest"
    and "send_count (snd (loop_iteration b cid w)) = send_count w + 1"
    and "trace (snd (loop_iteration b cid w)) =
           trace w @ Attempt m Sent # (case callback m of None \<Rightarrow> [] | Some f \<Rightarrow> [CallbackRun f])"
proof -
  from assms(1,2) obtain l1 where lh: "loop_head cid (clock w) (lstate w) = (Some m, l1)"
    and l1: "queue_of l1 cid = rest"
    by (rule quiet_pop)
  have sm: "send_message (channel_send b (send_count w)) (clock w) l1 = (True, 0, l1)"
    using assms(3) by simp
  note it = loop_iteration_Some[OF lh sm]
  show "fst (loop_iteration b cid w)" by (rule it(1))
  show "queue_of (lstate (snd (loop_iteration b cid w))) cid = rest"
    using l1 by (simp add: it(2) after_send_queue)
  show "send_count (snd (loop_iteration b cid w)) = send_count w + 1" by (rule it(3))
  show "trace (snd (loop_iteration b cid w)) =
           trace w @ Attempt m Sent # (case callback m of None \<Rightarrow> [] | Some f \<Rightarrow> [CallbackRun f])"
    using assms(3) by (simp add: it(5))
qed

text \<open>A message that fails three times, and one that fails twice and is then sent.\<close>

lemma drain_three_failures:
  assumes "quiet cid w" and "queue_of (lstate w) cid = [m]" and "retry_count m = 0"
    and "channel_send b (send_count w) \<noteq> Sent"
    and "channel_send b (send_count w + 1) \<noteq> Sent"
    and "channel_send b (send_count w + 2) \<noteq> Sent"
  shows "send_count (drain b cid w) = send_count w + 3"
    and "queue_of (lstate (drain b cid w)) cid = []"
    and "trace (drain b cid w) = trace w @
           [Attempt m (channel_send b (send_count w)),
            Attempt (m\<lparr>retry_count := 1\<rparr>) (channel_send b (send_count w + 1)),
            Attempt (m\<lparr>retry_count := 2\<rparr>) (channel_send b (send_count w + 2)),
            LogFailed (m\<lparr>retry_count := 3\<rparr>)]"
proof -
  let ?w1 = "snd (loop_iteration b cid w)"
  let ?w2 = "snd (loop_iteration b cid ?w1)"
  let ?w3 = "snd (loop_iteration b cid ?w2)"
  note p1 = quiet_failed_pass[OF assms(1,2,4)]
  have q1: "queue_of (lstate ?w1) cid = [m\<lparr>retry_count := 1\<rparr>]"
    using p1(3) assms(3) by simp
  have f1: "channel_send b (send_count ?w1) \<noteq> Sent" using assms(5) by (simp add: p1(4))
  note p2 = quiet_failed_pass[OF p1(2) q1 f1]
  have q2: "queue_of (lstate ?w2) cid = [m\<lparr>retry_count := 2\<rparr>]"
    using p2(3) by simp
  have f2: "channel_send b (send_count ?w2) \<noteq> Sent"
    using assms(6) by (simp add: p2(4) p1(4) add.assoc)
  note p3 = quiet_failed_pass[OF p2(2) q2 f2]
  have q3: "queue_of (lstate ?w3) cid = []"
    using p3(3) by simp
  have d: "drain b cid w = ?w3"
    using loop_iteration_empty[OF q3, of b]
    by (simp add: drain_step[OF p1(1)] drain_step[OF p2(1)] drain_step[OF p3(1)] drain_stop)
  show "send_count (drain b cid w) = send_count w + 3"
    by (simp add: d p3(4) p2(4) p1(4))
  show "queue_of (lstate (drain b cid w)) cid = []"
    by (simp add: d q3)
  show "trace (drain b cid w) = trace w @
           [Attempt m (channel_send b (send_count w)),
            Attempt (m\<lparr>retry_count := 1\<rparr>) (channel_send b (send_count w + 1)),
            Attempt (m\<lparr>retry_count := 2\<rparr>) (channel_send b (send_count w + 2)),
            LogFailed (m\<lparr>retry_count := 3\<rparr>)]"
    using assms(3) by (simp add: d p3(5) p2(5) p1(5) p2(4) p1(4) add.assoc)
qed

lemma drain_two_failures_then_sent:
  assumes "quiet cid w" and "queue_of (lstate w) cid = [m]" and "retry_count m = 0"
    and "channel_send b (send_count w) \<noteq> Sent"
    and "channel_send b (send_count w + 1) \<noteq> Sent"
    and "channel_send b (send_count w + 2) = Sent"
  shows "send_count (drain b cid w) = send_count w + 3"
    and "queue_of (lstate (drain b cid w)) cid = []"
    and "trace (drain b cid w) = trace w @
           [Attempt m (channel_send b (send_count w)),
            Attempt (m\<lparr>retry_count := 1\<rparr>) (channel_send b (send_count w + 1)),
            Attempt (m\<lparr>retry_count := 2\<rparr>) Sent]
           @ (case callback m of None \<Rightarrow> [] | Some f \<Rightarrow> [CallbackRun f])"
proof -
  let ?w1 = "snd (loop_iteration b cid w)"
  let ?w2 = "snd (loop_iteration b cid ?w1)"
  let ?w3 = "snd (loop_iteration b cid ?w2)"
  note p1 = quiet_failed_pass[OF assms(1,2,4)]
  have q1: "queue_of (lstate ?w1) cid = [m\<lparr>retry_count := 1\<rparr>]"
    using p1(3) assms(3) by simp
  have f1: "channel_send b (send_count ?w1) \<noteq> Sent" using assms(5) by (simp add: p1(4))
  note p2 = quiet_failed_pass[OF p1(2) q1 f1]
  have q2: "queue_of (lstate ?w2) cid = [m\<lparr>retry_count := 2\<rparr>]"
    using p2(3) by simp
  have f2: "channel_send b (send_count ?w2) = Sent"
    using assms(6) by (simp add: p2(4) p1(4) add.assoc)
  note p3 = quiet_sent_pass[OF p2(2) q2 f2]
  have q3: "queue_of (lstate ?w3) cid = []"
    using p3(2) by simp
  have d: "drain b cid w = ?w3"
    using loop_iteration_empty[OF q3, of b]
    by (simp add: drain_step[OF p1(1)] drain_step[OF p2(1)] drain_step[OF p3(1)] drain_stop)
  show "send_count (drain b cid w) = send_count w + 3"
    by (simp add: d p3(3) p2(4) p1(4))
  show "queue_of (lstate (drain b cid w)) cid = []"
    by (simp add: d q3)
  show "trace (drain b cid w) = trace w @
           [Attempt m (channel_send b (send_count w)),
            Attempt (m\<lparr>retry_count := 1\<rparr>) (channel_send b (send_count w + 1)),
            Attempt (m\<lparr>retry_count := 2\<rparr>) Sent]
           @ (case callback m of None \<Rightarrow> [] | Some f \<Rightarrow> [CallbackRun f])"
    using assms(3) by (simp add: d p3(4) p2(5) p1(5) p2(4) p1(4) add.assoc)
qed

lemma quiet_claimed:
  "quiet cid w \<Longrightarrow> quiet cid (w\<lparr>lstate := touch_queue cid (processing_add cid (lstate w))\<rparr>)"
  by (simp add: quiet_def)

text \<open>
  C5. Retry bound. A failed send increments the retry count of the message; the message
  goes back to the front of the queue while the new count is below 3 and is dropped
  otherwise. A run of a worker never calls the transport more often than the retry
  budget of the queue allows, which is three times for a single new message. When a
  worker finds nothing in its way, a new message that fails three times is attempted
  three times, logged as failed and dropped, and one that fails twice and is then sent
  is attempted three times and sent once.
\<close>

theorem retry_bound:
  "queue_of (after_send cid t m False l) cid =
     (if retry_count m + 1 < 3 then m\<lparr>retry_count := retry_count m + 1\<rparr> # queue_of l cid
      else queue_of l cid)
   \<and> send_count (process_channel_queue b cid w)
        + retry_budget (queue_of (lstate (process_channel_queue b cid w)) cid)
      \<le> send_count w + retry_budget (queue_of (lstate w) cid)
   \<and> (queue_of (lstate w) cid = [m0] \<and> retry_count m0 = 0 \<longrightarrow>
        send_count (process_channel_queue b cid w) \<le> send_count w + 3)
   \<and> (quiet cid w \<and> cid \<notin> processing_channels (lstate w) \<and> get_channel b cid
        \<and> queue_of (lstate w) cid = [m0] \<and> retry_count m0 = 0
        \<and> channel_send b (send_count w) \<noteq> Sent \<and> channel_send b (send_count w + 1) \<noteq> Sent \<longrightarrow>
        queue_of (lstate (process_channel_queue b cid w)) cid = []
        \<and> (channel_send b (send_count w + 2) \<noteq> Sent \<longrightarrow>
             trace (process_channel_queue b cid w) = trace w @
               [Attempt m0 (channel_send b (send_count w)),
                Attempt (m0\<lparr>retry_count := 1\<rparr>) (channel_send b (send_count w + 1)),
                Attempt (m0\<lparr>retry_count := 2\<rparr>) (channel_send b (send_count w + 2)),
                LogFailed (m0\<lparr>retry_count := 3\<rparr>)])
        \<and> (channel_send b (send_count w + 2) = Sent \<longrightarrow>
             trace (process_channel_queue b cid w) = trace w @
               [Attempt m0 (channel_send b (send_count w)),
                Attempt (m0\<lparr>retry_count := 1\<rparr>) (channel_send b (send_count w + 1)),
                Attempt (m0\<lparr>retry_count := 2\<rparr>) Sent]
               @ (case callback m0 of None \<Rightarrow> [] | Some f \<Rightarrow> [CallbackRun f])))"
proof (intro conjI impI)
  show "queue_of (after_send cid t m False l) cid =
     (if retry_count m + 1 < 3 then m\<lparr>retry_count := retry_count m + 1\<rparr> # queue_of l cid
      else queue_of l cid)"
    by (simp add: after_send_queue)
next
  show "send_count (process_channel_queue b cid w)
        + retry_budget (queue_of (lstate (process_channel_queue b cid w)) cid)
      \<le> send_count w + retry_budget (queue_of (lstate w) cid)"
    by (rule process_channel_queue_budget)
next
  assume "queue_of (lstate w) cid = [m0] \<and> retry_count m0 = 0"
  then have "retry_budget (queue_of (lstate w) cid) = 3"
    by (simp add: retry_budget_def)
  with process_channel_queue_budget[of b cid w]
  show "send_count (process_channel_queue b cid w) \<le> send_count w + 3"
    by simp
next
  let ?w1 = "w\<lparr>lstate := touch_queue cid (processing_add cid (lstate w))\<rparr>"
  assume a: "quiet cid w \<and> cid \<notin> processing_channels (lstate w) \<and> get_channel b cid
        \<and> queue_of (lstate w) cid = [m0] \<and> retry_count m0 = 0
        \<and> channel_send b (send_count w) \<noteq> Sent \<and> channel_send b (send_count w + 1) \<noteq> Sent"
  then have run: "process_channel_queue b cid w =
      (drain b cid ?w1)\<lparr>lstate := processing_discard cid (lstate (drain b cid ?w1))\<rparr>"
    by (simp add: process_channel_queue_run)
  have q: "quiet cid ?w1" using a by (simp add: quiet_claimed)
  have q1: "queue_of (lstate ?w1) cid = [m0]" using a by simp
  have rc: "retry_count m0 = 0" using a by simp
  have f0: "channel_send b (send_count ?w1) \<noteq> Sent"
    and f1: "channel_send b (send_count ?w1 + 1) \<noteq> Sent"
    using a by simp_all
  show "queue_of (lstate (process_channel_queue b cid w)) cid = []"
  proof (cases "channel_send b (send_count w + 2) = Sent")
    case True
    then have "channel_send b (send_count ?w1 + 2) = Sent" by simp
    from drain_two_failures_then_sent(2)[OF q q1 rc f0 f1 this] show ?thesis
      by (simp add: run)
  next
    case False
    then have "channel_send b (send_count ?w1 + 2) \<noteq> Sent" by simp
    from drain_three_failures(2)[OF q q1 rc f0 f1 this] show ?thesis
      by (simp add: run)
  qed
  {
    assume "channel_send b (send_count w + 2) \<noteq> Sent"
    then have "channel_send b (send_count ?w1 + 2) \<noteq> Sent" by simp
    from drain_three_failures(3)[OF q q1 rc f0 f1 this]
    show "trace (process_channel_queue b cid w) = trace w @
               [Attempt m0 (channel_send b (send_count w)),
                Attempt (m0\<lparr>retry_count := 1\<rparr>) (channel_send b (send_count w + 1)),
                Attempt (m0\<lparr>retry_count := 2\<rparr>) (channel_send b (send_count w + 2)),
                LogFailed (m0\<lparr>retry_count := 3\<rparr>)]"
      by (simp add: run)
  }
  {
    assume "channel_send b (send_count w + 2) = Sent"
    then have "channel_send b (send_count ?w1 + 2) = Sent" by simp
    from drain_two_failures_then_sent(3)[OF q q1 rc f0 f1 this]
    show "trace (process_channel_queue b cid w) = trace w @
               [Attempt m0 (channel_send b (send_count w)),
                Attempt (m0\<lparr>retry_count := 1\<rparr>) (channel_send b (send_count w + 1)),
                Attempt (m0\<lparr>retry_count := 2\<rparr>) Sent]
               @ (case callback m0 of None \<Rightarrow> [] | Some f \<Rightarrow> [CallbackRun f])"
      by (simp add: run)
  }
qed

theorem retry_bound_witness:
  "quiet 1 sample_world \<and> 1 \<notin> processing_channels (lstate sample_world)
   \<and> queue_of (lstate sample_world) 1 = [sample_message NORMAL 0]
   \<and> retry_count (sample_message NORMAL 0) = 0
   \<and> send_count (process_channel_queue failing_bot 1 sample_world) \<le> 3
   \<and> trace (process_channel_queue failing_bot 1 sample_world) =
       [Attempt (sample_message NORMAL 0) HTTPError,
        Attempt ((sample_message NORMAL 0)\<lparr>retry_count := 1\<rparr>) HTTPError,
        Attempt ((sample_message NORMAL 0)\<lparr>retry_count := 2\<rparr>) HTTPError,
        LogFailed ((sample_message NORMAL 0)\<lparr>retry_count := 3\<rparr>)]
   \<and> queue_of (lstate (process_channel_queue failing_bot 1 sample_world)) 1 = []
   \<and> trace (process_channel_queue flaky_bot 1 sample_world) =
       [Attempt (sample_message NORMAL 0) HTTPError,
        Attempt ((sample_message NORMAL 0)\<lparr>retry_count := 1\<rparr>) HTTPError,
        Attempt ((sample_message NORMAL 0)\<lparr>retry_count := 2\<rparr>) Sent]
   \<and> queue_of (lstate (process_channel_queue flaky_bot 1 sample_world)) 1 = []"
proof -
  have rc: "retry_count (sample_message NORMAL 0) = 0" "callback (sample_message NORMAL 0) = None"
    by (simp_all add: sample_message_def)
  have fb: "get_channel failing_bot 1" "\<And>k. channel_send failing_bot k = HTTPError"
    by (simp_all add: failing_bot_def)
  have kb: "get_channel flaky_bot 1" "channel_send flaky_bot 0 = HTTPError"
    "channel_send flaky_bot (Suc 0) = HTTPError" "channel_send flaky_bot (Suc (Suc 0)) = Sent"
    by (simp_all add: flaky_bot_def)
  note f = retry_bound[where b = failing_bot and cid = 1 and w = sample_world
      and ?m0.0 = "sample_message NORMAL 0"]
  note k = retry_bound[where b = flaky_bot and cid = 1 and w = sample_world
      and ?m0.0 = "sample_message NORMAL 0"]
  from f have 1: "send_count (process_channel_queue failing_bot 1 sample_world) \<le> 3
   \<and> trace (process_channel_queue failing_bot 1 sample_world) =
       [Attempt (sample_message NORMAL 0) HTTPError,
        Attempt ((sample_message NORMAL 0)\<lparr>retry_count := 1\<rparr>) HTTPError,
        Attempt ((sample_message NORMAL 0)\<lparr>retry_count := 2\<rparr>) HTTPError,
        LogFailed ((sample_message NORMAL 0)\<lparr>retry_count := 3\<rparr>)]
   \<and> queue_of (lstate (process_channel_queue failing_bot 1 sample_world)) 1 = []"
    by (simp add: sample_world_quiet sample_world_fields rc fb)
  from k have 2: "trace (process_channel_queue flaky_bot 1 sample_world) =
       [Attempt (sample_message NORMAL 0) HTTPError,
        Attempt ((sample_message NORMAL 0)\<lparr>retry_count := 1\<rparr>) HTTPError,
        Attempt ((sample_message NORMAL 0)\<lparr>retry_count := 2\<rparr>) Sent]
   \<and> queue_of (lstate (process_channel_queue flaky_bot 1 sample_world)) 1 = []"
    by (simp add: sample_world_quiet sample_world_fields rc kb)
  from 1 2 rc show ?thesis
    by (simp add: sample_world_quiet sample_world_fields)
qed

section \<open>Rate-limited sends (C2)\<close>

text \<open>
  C2 as stated fails. The worker does not stop its loop after a rate-limited response,
  and it does not always put the message back: with a transport that answers every send
  with a rate-limited response (retry-after 2, not global), one run of the worker on a
  queue of one new message calls the transport three times and then drops the message.
\<close>

theorem throttle_requeue_counterexample:
  "channel_send throttling_bot 0 = RateLimited (Some 2) False
   \<and> trace (process_channel_queue throttling_bot 1 sample_world) =
       [Attempt (sample_message NORMAL 0) (RateLimited (Some 2) False),
        Attempt ((sample_message NORMAL 0)\<lparr>retry_count := 1\<rparr>) (RateLimited (Some 2) False),
        Attempt ((sample_message NORMAL 0)\<lparr>retry_count := 2\<rparr>) (RateLimited (Some 2) False),
        LogFailed ((sample_message NORMAL 0)\<lparr>retry_count := 3\<rparr>)]
   \<and> queue_of (lstate (process_channel_queue throttling_bot 1 sample_world)) 1 = []"
proof -
  let ?w1 = "sample_world\<lparr>lstate := touch_queue 1 (processing_add 1 (lstate sample_world))\<rparr>"
  have tb: "get_channel throttling_bot 1"
    "\<And>k. channel_send throttling_bot k = RateLimited (Some 2) False"
    by (simp_all add: throttling_bot_def)
  have run: "process_channel_queue throttling_bot 1 sample_world =
      (drain throttling_bot 1 ?w1)
        \<lparr>lstate := processing_discard 1 (lstate (drain throttling_bot 1 ?w1))\<rparr>"
    by (rule process_channel_queue_run) (simp_all add: sample_world_fields tb)
  have q: "quiet 1 ?w1" using sample_world_quiet by (rule quiet_claimed)
  have q1: "queue_of (lstate ?w1) 1 = [sample_message NORMAL 0]"
    by (simp add: sample_world_fields)
  have rc: "retry_count (sample_message NORMAL 0) = 0" by (simp add: sample_message_def)
  have f: "channel_send throttling_bot (send_count ?w1) \<noteq> Sent"
    "channel_send throttling_bot (send_count ?w1 + 1) \<noteq> Sent"
    "channel_send throttling_bot (send_count ?w1 + 2) \<noteq> Sent"
    by (simp_all add: tb)
  from drain_three_failures(2,3)[OF q q1 rc f] show ?thesis
    by (simp add: run tb sample_world_fields)
qed

text \<open>
  C2, amended. When the transport answers the send of a popped message with a rate-limited
  response, the worker sets the global deadline if the response is global and records
  nothing for the channel, sleeps the retry-after, and increments the retry count of the
  message; it puts the message back at the front of the channel's queue if the new count
  is below 3 and drops it otherwise. The loop does not stop: after a further 0.1 it goes
  on to its next pass.
\<close>

theorem throttle_requeue:
  assumes "loop_head cid (clock w) (lstate w) = (Some m, l1)"
    and "channel_send b (send_count w) = RateLimited ra g"
  shows "fst (loop_iteration b cid w)
    \<and> queue_of (lstate w) cid = m # queue_of l1 cid
    \<and> queue_of (lstate (snd (loop_iteration b cid w))) cid =
        (if retry_count m + 1 < 3 then m\<lparr>retry_count := retry_count m + 1\<rparr> # queue_of l1 cid
         else queue_of l1 cid)
    \<and> global_rate_limit_reset (lstate (snd (loop_iteration b cid w))) =
        (if g then clock w + (case ra of None \<Rightarrow> 1 | Some r \<Rightarrow> r)
         else global_rate_limit_reset (lstate w))
    \<and> rate_limit_reset (lstate (snd (loop_iteration b cid w))) = rate_limit_reset (lstate w)
    \<and> channel_last_sent (lstate (snd (loop_iteration b cid w))) = channel_last_sent (lstate w)
    \<and> clock (snd (loop_iteration b cid w)) =
        clock w + max 0 (case ra of None \<Rightarrow> 1 | Some r \<Rightarrow> r) + 1 / 10"
proof -
  let ?d = "case ra of None \<Rightarrow> 1 | Some r \<Rightarrow> r"
  let ?l2 = "if g then l1\<lparr>global_rate_limit_reset := clock w + ?d\<rparr> else l1"
  have sm: "send_message (channel_send b (send_count w)) (clock w) l1 = (False, ?d, ?l2)"
    using assms(2) by (simp add: Let_def)
  note it = loop_iteration_Some[OF assms(1) sm]
  note h = loop_head_Some[OF assms(1)]
  have r1: "global_rate_limit_reset l1 = global_rate_limit_reset (lstate w)"
    "rate_limit_reset l1 = rate_limit_reset (lstate w)"
    "channel_last_sent l1 = channel_last_sent (lstate w)"
    by (subst h(2), simp)+
  show ?thesis
    using it(1) h(1) r1
    by (simp add: it(2,4) after_send_queue after_send_failed_fields
        after_send_rate_limit_reset)
qed

theorem throttle_requeue_witness:
  "loop_head 1 (clock sample_world) (lstate sample_world)
     = (Some (sample_message NORMAL 0),
        set_queue 1 [] (set_queue 1 [sample_message NORMAL 0] init_limiter))
   \<and> channel_send throttling_bot (send_count sample_world) = RateLimited (Some 2) False
   \<and> fst (loop_iteration throttling_bot 1 sample_world)
   \<and> queue_of (lstate (snd (loop_iteration throttling_bot 1 sample_world))) 1
       = [(sample_message NORMAL 0)\<lparr>retry_count := 1\<rparr>]
   \<and> global_rate_limit_reset (lstate (snd (loop_iteration throttling_bot 1 sample_world))) = 0
   \<and> clock (snd (loop_iteration throttling_bot 1 sample_world)) = 1 + 2 + 1 / 10"
proof -
  have lh: "loop_head 1 (clock sample_world) (lstate sample_world)
     = (Some (sample_message NORMAL 0),
        set_queue 1 [] (set_queue 1 [sample_message NORMAL 0] init_limiter))"
    unfolding sample_world_fields by (rule sample_world_head)
  have r: "channel_send throttling_bot (send_count sample_world) = RateLimited (Some 2) False"
    by (simp add: throttling_bot_def)
  have rc: "retry_count (sample_message NORMAL 0) = 0" by (simp add: sample_message_def)
  have g0: "global_rate_limit_reset (lstate sample_world) = 0"
    by (simp add: sample_world_def init_limiter_def)
  from throttle_requeue[OF lh r] lh r show ?thesis
    by (simp add: rc g0 sample_world_fields)
qed

section \<open>Deduplication (C1)\<close>

lemma sample_hash: "generate_embed_hash sample_builtins t sample_embed = ''18''"
  by (simp add: generate_embed_hash_def sample_builtins_def sample_embed_def or_empty_def
      str_int_def str_nat.simps digit_char_def)

lemma sample_str_float:
  "py_str_float sample_builtins 0 = ''0.0''" "py_str_float sample_builtins 1 = ''1.0''"
  by (simp_all add: sample_builtins_def str_int_def str_nat.simps digit_char_def)

lemma sample_py_float: "py_float sample_builtins ''0.0'' = Some 0"
  by (simp add: sample_builtins_def sample_float_def digit_value_def)

lemma first_call:
  "queue_message sample_builtins 0 1 sample_embed None None NORMAL None init_limiter =
     init_limiter\<lparr>recent_embeds := (\<lambda>c. [])(1 := [''0.0_18'']),
                   channel_queues := [(1, [sample_message NORMAL 0])]\<rparr>"
  by (simp add: queue_message_def sample_hash sample_str_float Let_def init_limiter_def
      set_queue_def queue_of_def sample_message_def)

text \<open>
  C1: the code does not do what the claim says. The duplicate check of line 95 looks for
  the bare hash among the recorded entries, but line 100 records \<open>time_hash\<close>, so the
  check never finds it. Two calls for the same channel with the same embed, at times 0
  and 1, both enqueue a message.
\<close>

theorem dedup_second_call_enqueued:
  "queue_of
     (queue_message sample_builtins 1 1 sample_embed None None NORMAL None
       (queue_message sample_builtins 0 1 sample_embed None None NORMAL None init_limiter)) 1
   = [sample_message NORMAL 0, sample_message NORMAL 1]"
  unfolding first_call
  by (simp add: queue_message_def sample_hash sample_str_float sample_py_float Let_def
      init_limiter_def set_queue_def queue_of_def sample_message_def dedup_window_def)

text \<open>
  The same for every hash function and every rendering of floats: an entry that line 100
  records contains an underscore, the decimal numeral of a hash does not, so a call in
  which \<open>float\<close> does not raise always enqueues its message.
\<close>

lemma digit_char_not_underscore: "d < 10 \<Longrightarrow> digit_char d \<noteq> CHR ''_''"
proof -
  assume "d < 10"
  then have "digit_char d \<in> set ''0123456789''"
    unfolding digit_char_def by (intro nth_mem) simp
  then show ?thesis by auto
qed

lemma str_nat_no_underscore: "CHR ''_'' \<notin> set (str_nat n)"
proof (induction n rule: str_nat.induct)
  case (1 n)
  show ?case
  proof (cases "n < 10")
    case True
    then show ?thesis
      using digit_char_not_underscore[of n] by (subst str_nat.simps) auto
  next
    case False
    have "n mod 10 < 10" by simp
    then show ?thesis
      using False "1.IH" digit_char_not_underscore[of "n mod 10"]
      by (subst str_nat.simps) auto
  qed
qed

lemma str_int_no_underscore: "CHR ''_'' \<notin> set (str_int i)"
  by (simp add: str_int_def str_nat_no_underscore)

lemma purge_recent_subset: "purge_recent B t hs = Some kept \<Longrightarrow> set kept \<subseteq> set hs"
  by (induction hs arbitrary: kept) (auto split: option.splits if_splits)

lemma duplicate_check_never_true:
  assumes "footer emb \<noteq> Some None"
    and "\<forall>h \<in> set (recent_embeds l cid). CHR ''_'' \<in> set h"
    and "purge_recent B t (recent_embeds l cid) = Some kept"
  shows "queue_of (queue_message B t cid emb fl cont prio cb l) cid =
           insert_message
             \<lparr>channel_id = cid, embed = emb, msg_file = fl, content = cont, priority = prio,
              timestamp = t, retry_count = 0, callback = cb\<rparr> (queue_of l cid)"
    and "\<forall>h \<in> set (recent_embeds (queue_message B t cid emb fl cont prio cb l) cid).
           CHR ''_'' \<in> set h"
proof -
  have "\<exists>n. generate_embed_hash B t emb = str_int n"
  proof (cases "footer emb")
    case None
    then show ?thesis by (auto simp: generate_embed_hash_def)
  next
    case (Some ftext)
    with assms(1) obtain ft where "ftext = Some ft" by (cases ftext) auto
    with Some show ?thesis by (auto simp: generate_embed_hash_def)
  qed
  then obtain n where h: "generate_embed_hash B t emb = str_int n" ..
  have "CHR ''_'' \<notin> set (generate_embed_hash B t emb)"
    unfolding h by (rule str_int_no_underscore)
  moreover have k: "\<forall>h \<in> set kept. CHR ''_'' \<in> set h"
    using assms(2) purge_recent_subset[OF assms(3)] by blast
  ultimately have nd: "generate_embed_hash B t emb \<notin> set kept" by blast
  show "queue_of (queue_message B t cid emb fl cont prio cb l) cid =
           insert_message
             \<lparr>channel_id = cid, embed = emb, msg_file = fl, content = cont, priority = prio,
              timestamp = t, retry_count = 0, callback = cb\<rparr> (queue_of l cid)"
    using nd assms(3) by (simp add: queue_message_def Let_def)
  show "\<forall>h \<in> set (recent_embeds (queue_message B t cid emb fl cont prio cb l) cid).
           CHR ''_'' \<in> set h"
    using nd assms(3) k by (simp add: queue_message_def Let_def)
qed

section \<open>Mutual exclusion of workers (C8)\<close>

lemma queue_message_processing:
  "processing_channels (queue_message B t cid emb fl cont prio cb l) = processing_channels l"
  by (simp add: queue_message_def Let_def split: option.splits)

lemma scan_channels_processing:
  "processing_channels (snd (scan_channels t cids l)) = processing_channels l"
proof (induction cids arbitrary: l)
  case Nil
  show ?case by simp
next
  case (Cons c cids)
  show ?case
    using Cons[of l] Cons[of "snd (can_send_to_channel c t l)"]
    by (simp add: split_beta Let_def snd_can_send_to_channel)
qed

lemma process_queues_cycle_processing:
  "processing_channels (snd (process_queues_cycle t l)) = processing_channels l"
  by (simp add: process_queues_cycle_def split_beta scan_channels_processing
      snd_is_globally_rate_limited)

lemma loop_head_processing:
  "processing_channels (snd (loop_head cid t l)) = processing_channels l"
  by (simp add: loop_head_def split_beta snd_can_send_to_channel snd_is_globally_rate_limited
      split: list.splits)

lemma held_created: "held (ts @ map (\<lambda>cid. (cid, Created)) cids) = held ts"
  by (simp add: held_def filter_map comp_def)

lemma held_nth:
  assumes "k < length ts" and "ts ! k = (c, ph)"
  shows "held ts = held (take k ts) @ (if holds_claim ph then [c] else []) @ held (drop (Suc k) ts)"
proof -
  have "ts = take k ts @ (c, ph) # drop (Suc k) ts"
    using assms id_take_nth_drop[of k ts] by simp
  then have "held ts = held (take k ts @ (c, ph) # drop (Suc k) ts)" by simp
  then show ?thesis by (simp add: held_def)
qed

lemma held_update:
  assumes "k < length ts"
  shows "held (ts[k := (c, ph')]) =
           held (take k ts) @ (if holds_claim ph' then [c] else []) @ held (drop (Suc k) ts)"
proof -
  have "ts[k := (c, ph')] = take k ts @ (c, ph') # drop (Suc k) ts"
    using assms by (rule upd_conv_take_nth_drop)
  then show ?thesis by (simp add: held_def)
qed

lemma step_consistent:
  assumes "step B b s s'" and "claims_consistent s"
  shows "claims_consistent s'"
  using assms(1)
proof (cases rule: step.cases)
  case (submit t cid emb fl cont prio cb)
  then show ?thesis using assms(2)
    by (simp add: claims_consistent_def queue_message_processing)
next
  case (dispatch t started l')
  then have "processing_channels l' = processing_channels (shared s)"
    using process_queues_cycle_processing[of t "shared s"] by simp
  then show ?thesis using assms(2) dispatch
    by (simp add: claims_consistent_def held_created)
next
  case flush
  then show ?thesis using assms(2)
    by (simp add: claims_consistent_def held_created)
next
  case (enter_claimed i cid)
  note h = held_nth[OF enter_claimed(2,3)] held_update[OF enter_claimed(2)]
  show ?thesis using assms(2)
    unfolding claims_consistent_def enter_claimed(1) by (simp add: h)
next
  case (enter_not_found i cid)
  note h = held_nth[OF enter_not_found(2,3)] held_update[OF enter_not_found(2)]
  show ?thesis using assms(2) enter_not_found(4)
    unfolding claims_consistent_def enter_not_found(1) by (simp add: h)
next
  case (enter_loop i cid)
  note h = held_nth[OF enter_loop(2,3)] held_update[OF enter_loop(2)]
  show ?thesis using assms(2) enter_loop(4)
    unfolding claims_consistent_def enter_loop(1) by (auto simp: h)
next
  case (loop_pop i cid t m l')
  then have p: "processing_channels l' = processing_channels (shared s)"
    using loop_head_processing[of cid t "shared s"] by simp
  note h = held_nth[OF loop_pop(2,3)] held_update[OF loop_pop(2)]
  show ?thesis using assms(2)
    unfolding claims_consistent_def loop_pop(1) by (simp add: h p)
next
  case (loop_end i cid t l')
  then have p: "processing_channels l' = processing_channels (shared s)"
    using loop_head_processing[of cid t "shared s"] by simp
  note h = held_nth[OF loop_end(2,3)] held_update[OF loop_end(2)]
  show ?thesis using assms(2)
    unfolding claims_consistent_def loop_end(1) by (auto simp: h p)
next
  case (send_throttled i cid m t0 ra g t success d l')
  then have p: "processing_channels l' = processing_channels (shared s)"
    using send_message_windows(5)[of "RateLimited ra g" t "shared s"] by simp
  note h = held_nth[OF send_throttled(2,3)] held_update[OF send_throttled(2)]
  show ?thesis using assms(2)
    unfolding claims_consistent_def send_throttled(1) by (simp add: h p)
next
  case (send_returns i cid m t0 r t success d l')
  then have p: "processing_channels l' = processing_channels (shared s)"
    using send_message_windows(5)[of r t "shared s"] by simp
  note h = held_nth[OF send_returns(2,3)] held_update[OF send_returns(2)]
  show ?thesis using assms(2)
    unfolding claims_consistent_def send_returns(1)
    by (simp add: h p after_send_failed_fields)
next
  case (backoff_over i cid m t0)
  note h = held_nth[OF backoff_over(2,3)] held_update[OF backoff_over(2)]
  show ?thesis using assms(2)
    unfolding claims_consistent_def backoff_over(1)
    by (simp add: h after_send_failed_fields)
next
  case (worker_raises i cid ph)
  note h = held_nth[OF worker_raises(2,3)] held_update[OF worker_raises(2)]
  show ?thesis using assms(2) worker_raises(4)
    unfolding claims_consistent_def worker_raises(1) by (auto simp: h)
qed

lemma reachable_consistent: "reachable B b s \<Longrightarrow> claims_consistent s"
proof (induction rule: reachable.induct)
  case start
  show ?case by (simp add: claims_consistent_def init_system_def held_def)
next
  case (next_step s s')
  then show ?case using step_consistent by blast
qed

lemma length_claim_holders:
  "length (claim_holders s cid) = length (filter (\<lambda>c. c = cid) (held (tasks s)))"
  by (simp add: claim_holders_def held_def filter_map comp_def conj_commute)

lemma distinct_filter_eq: "distinct xs \<Longrightarrow> length (filter (\<lambda>c. c = a) xs) \<le> 1"
  by (induction xs) (auto simp: filter_empty_conv)

lemma consistent_holders:
  "claims_consistent s \<Longrightarrow> length (claim_holders s cid) \<le> 1"
  using distinct_filter_eq[of "held (tasks s)" cid]
  by (simp add: length_claim_holders claims_consistent_def)

lemma queued_system_shared:
  "shared queued_system =
     init_limiter\<lparr>recent_embeds := (\<lambda>c. [])(1 := [''0.0_18'']),
                   channel_queues := [(1, [sample_message NORMAL 0])]\<rparr>"
  by (simp add: queued_system_def init_system_def first_call)

lemma queued_system_fields:
  "queue_of (shared queued_system) 1 = [sample_message NORMAL 0]"
  "map fst (channel_queues (shared queued_system)) = [1]"
  "processing_channels (shared queued_system) = {}"
  "tasks queued_system = []"
     apply (simp_all add: queued_system_shared queue_of_def init_limiter_def)
  apply (simp add: queued_system_def init_system_def)
  done

lemma claimed_system_reachable: "reachable sample_builtins sending_bot claimed_system"
proof -
  let ?R = "reachable sample_builtins sending_bot"
  let ?S = "step sample_builtins sending_bot"
  have r1: "?R queued_system"
    unfolding queued_system_def by (rule reachable.next_step[OF reachable.start step.submit])
  have fl: "flush_channels (shared queued_system) = [1]"
    by (simp add: flush_channels_def queued_system_fields)
  let ?s2 = "queued_system\<lparr>tasks := [(1, Created)]\<rparr>"
  have "?S queued_system ?s2"
    using step.flush[of sample_builtins sending_bot queued_system]
    by (simp add: fl queued_system_fields)
  with r1 have r2: "?R ?s2" by (rule reachable.next_step)
  have "?S ?s2 two_tasks_system"
    using step.flush[of sample_builtins sending_bot ?s2]
    by (simp add: fl two_tasks_system_def)
  with r2 have r3: "?R two_tasks_system" by (rule reachable.next_step)
  let ?s4 = "two_tasks_system\<lparr>shared := touch_queue 1 (processing_add 1 (shared two_tasks_system)),
                      tasks := [(1, AtLoopHead), (1, Created)]\<rparr>"
  have "?S two_tasks_system ?s4"
    using step.enter_loop[of 0 two_tasks_system 1 sending_bot sample_builtins]
    by (simp add: two_tasks_system_def queued_system_fields sending_bot_def)
  with r3 have r4: "?R ?s4" by (rule reachable.next_step)
  have "?S ?s4 claimed_system"
    using step.enter_claimed[of 1 ?s4 1 sample_builtins sending_bot]
    by (simp add: claimed_system_def)
  with r4 show ?thesis by (rule reachable.next_step)
qed

text \<open>
  C8. Worker mutual exclusion. In every state that the tasks of the event loop can reach,
  at most one worker task holds the claim of a channel. A worker that starts for a
  channel that is in the processing set returns at once and changes nothing: not the
  queues, not the governor, not the processing set, and it sends nothing.
\<close>

theorem worker_mutual_exclusion:
  "(reachable B b s \<longrightarrow> length (claim_holders s cid) \<le> 1)
   \<and> (cid \<in> processing_channels (lstate w) \<longrightarrow> process_channel_queue b cid w = w)"
  using reachable_consistent[of B b s] consistent_holders[of s cid]
  by (auto simp: process_channel_queue_def)

theorem worker_mutual_exclusion_witness:
  "reachable sample_builtins sending_bot claimed_system
   \<and> tasks claimed_system = [(1, AtLoopHead), (1, Finished)]
   \<and> length (claim_holders claimed_system 1) \<le> 1
   \<and> 1 \<in> processing_channels (lstate claimed_world)
   \<and> process_channel_queue sending_bot 1 claimed_world = claimed_world"
proof -
  have p: "1 \<in> processing_channels (lstate claimed_world)"
    by (simp add: claimed_world_def claimed_system_def)
  have t: "tasks claimed_system = [(1, AtLoopHead), (1, Finished)]"
    by (simp add: claimed_system_def)
  from worker_mutual_exclusion[of sample_builtins sending_bot claimed_system 1 claimed_world]
    claimed_system_reachable p t
  show ?thesis by blast
qed

section \<open>The global throttle (C7)\<close>

























end
